theory Spec2Isabelle
  imports Main "HOL-Library.Sublist" "HOL-Library.Char_ord" "HOL-Library.List_Lexorder"
begin

section \<open>Python strings\<close>

text \<open>
  The program is Python 2 (\<^verbatim>\<open>urllib2\<close>, \<^verbatim>\<open>f1.decode\<close>): a \<^verbatim>\<open>str\<close> is a byte string,
  modelled as \<^typ>\<open>string\<close>. Comparison of two \<^verbatim>\<open>str\<close> is lexicographic on bytes, which
  is the order of \<^typ>\<open>char list\<close> given by the imported orders on characters and lists.
\<close>

definition newline :: char where
  "newline = CHR 0x0A"

definition backslash :: char where
  "backslash = CHR 0x5C"

text \<open>\<^verbatim>\<open>str.lower()\<close>: the ASCII capitals are mapped, every other byte is kept.\<close>

definition lower_char :: "char \<Rightarrow> char" where
  "lower_char c = (case map_of (zip ''ABCDEFGHIJKLMNOPQRSTUVWXYZ'' ''abcdefghijklmnopqrstuvwxyz'') c of
      Some l \<Rightarrow> l | None \<Rightarrow> c)"

definition lower :: "string \<Rightarrow> string" where
  "lower s = map lower_char s"

text \<open>\<^verbatim>\<open>sep.join(xs)\<close>.\<close>

fun join :: "string \<Rightarrow> string list \<Rightarrow> string" where
  "join sep [] = []"
| "join sep [x] = x"
| "join sep (x # y # ys) = x @ sep @ join sep (y # ys)"

text \<open>
  \<^verbatim>\<open>s.replace(old, new)\<close> for a non-empty \<^verbatim>\<open>old\<close>: the occurrences are replaced from
  left to right without overlap. The counter is the number of characters of the
  occurrence just replaced that are still to be skipped.
\<close>

fun replace_from :: "string \<Rightarrow> string \<Rightarrow> nat \<Rightarrow> string \<Rightarrow> string" where
  "replace_from old new k [] = []"
| "replace_from old new (Suc k) (c # cs) = replace_from old new k cs"
| "replace_from old new 0 (c # cs) =
     (if old \<noteq> [] \<and> prefix old (c # cs)
      then new @ replace_from old new (length old - 1) cs
      else c # replace_from old new 0 cs)"

definition replace :: "string \<Rightarrow> string \<Rightarrow> string \<Rightarrow> string" where
  "replace old new s = replace_from old new 0 s"

text \<open>\<^verbatim>\<open>s.strip(chars)\<close> removes the characters of \<^verbatim>\<open>chars\<close> from both ends.\<close>

definition strip_chars :: "string \<Rightarrow> string \<Rightarrow> string" where
  "strip_chars chars s =
     rev (dropWhile (\<lambda>c. c \<in> set chars) (rev (dropWhile (\<lambda>c. c \<in> set chars) s)))"

text \<open>\<^verbatim>\<open>s.strip()\<close> removes the ASCII white space from both ends.\<close>

definition whitespace :: string where
  "whitespace = [CHR '' '', CHR 0x09, CHR 0x0A, CHR 0x0D, CHR 0x0B, CHR 0x0C]"

definition strip :: "string \<Rightarrow> string" where
  "strip s = strip_chars whitespace s"

text \<open>\<^verbatim>\<open>s.split(sep)\<close> for a separator of one character: one piece more than separators.\<close>

fun split :: "char \<Rightarrow> string \<Rightarrow> string list" where
  "split sep [] = [[]]"
| "split sep (c # cs) =
     (if c = sep then [] # split sep cs
      else (case split sep cs of p # ps \<Rightarrow> (c # p) # ps | [] \<Rightarrow> [[c]]))"

section \<open>Errors\<close>

text \<open>
  Every exception the program raises is a value. \<open>External\<close> stands for the failures
  of the collaborators (the text extraction utility, the lookup service, the bibliography
  parser), whose kind the program never inspects.
\<close>

datatype error =
    ValueError string
  | AssertionError string
  | KeyError string
  | IndexError
  | OSError string
  | External string

section \<open>DOI extraction\<close>

subsection \<open>The regular expression of \<^verbatim>\<open>parse_doi\<close>\<close>

text \<open>
  The pattern is \<^verbatim>\<open>prefix + "(" + doi + ")" + stop\<close>. Its first part is built as
  \<^verbatim>\<open>'[' + '|'.join(prefixes) + ']'\<close>, which the \<^verbatim>\<open>re\<close> module reads as a character
  class: it matches one character among those listed between the brackets, a backslash
  making the next character literal.
\<close>

definition prefixes :: "string list" where
  "prefixes = [''doi:'', ''doi: '', ''doi '',
     ''dx'' @ [backslash] @ ''.doi'' @ [backslash] @ ''.org/'', ''doi/'']"

fun class_chars :: "string \<Rightarrow> string" where
  "class_chars [] = []"
| "class_chars [c] = [c]"
| "class_chars (c # d # cs) =
     (if c = backslash then d # class_chars cs else c # class_chars (d # cs))"

definition prefix_class :: "char \<Rightarrow> bool" where
  "prefix_class c \<longleftrightarrow> c \<in> set (class_chars (join ''|'' prefixes))"

definition is_digit :: "char \<Rightarrow> bool" where
  "is_digit c \<longleftrightarrow> c \<in> set ''0123456789''"

text \<open>\<^verbatim>\<open>stop = r"[, \n]"\<close>\<close>

definition stop_class :: "char \<Rightarrow> bool" where
  "stop_class c \<longleftrightarrow> c \<in> set [CHR '','', CHR '' '', newline]"

text \<open>
  \<^verbatim>\<open>[ \d]*\<close> followed by \<^verbatim>\<open>stop\<close>: the star is greedy, so the longest run is tried first and
  given back one character at a time. The result is the text consumed by the star.
\<close>

fun space_digits :: "string \<Rightarrow> string option" where
  "space_digits [] = None"
| "space_digits (c # cs) =
     (if c = CHR '' '' \<or> is_digit c
      then (case space_digits cs of
              Some m \<Rightarrow> Some (c # m)
            | None \<Rightarrow> if stop_class c then Some [] else None)
      else if stop_class c then Some [] else None)"

text \<open>
  \<^verbatim>\<open>.*?\<close> followed by the rest of the pattern: the star is lazy, so the rest is tried at
  once and one more character (any but a newline) is consumed only when it fails.
\<close>

fun body_tail :: "bool \<Rightarrow> string \<Rightarrow> string option" where
  "body_tail space_digit [] = None"
| "body_tail space_digit (c # cs) =
     (case (if space_digit then space_digits (c # cs)
            else if stop_class c then Some [] else None) of
        Some m \<Rightarrow> Some m
      | None \<Rightarrow> if c \<noteq> newline then map_option ((#) c) (body_tail space_digit cs) else None)"

text \<open>The whole pattern anchored at the head of the text; the result is group 1.\<close>

definition match_here :: "bool \<Rightarrow> string \<Rightarrow> string option" where
  "match_here space_digit txt =
     (case txt of
        p # c1 # c0 # dot # d1 # d2 # d3 # d4 # sl # rest \<Rightarrow>
          if prefix_class p \<and> c1 = CHR ''1'' \<and> c0 = CHR ''0'' \<and> dot = CHR ''.''
             \<and> is_digit d1 \<and> is_digit d2 \<and> is_digit d3 \<and> is_digit d4 \<and> sl = CHR ''/''
          then map_option (\<lambda>m. [c1, c0, dot, d1, d2, d3, d4, sl] @ m) (body_tail space_digit rest)
          else None
      | _ \<Rightarrow> None)"

text \<open>
  \<^verbatim>\<open>findall\<close>: the matches from left to right, without overlap, each given by its group.
  A match spans the prefix character, the group and the stop character; the counter is
  the number of its characters still to be skipped.
\<close>

fun findall_from :: "bool \<Rightarrow> nat \<Rightarrow> string \<Rightarrow> string list" where
  "findall_from space_digit k [] = []"
| "findall_from space_digit (Suc k) (c # cs) = findall_from space_digit k cs"
| "findall_from space_digit 0 (c # cs) =
     (case match_here space_digit (c # cs) of
        Some m \<Rightarrow> m # findall_from space_digit (length m + 1) cs
      | None \<Rightarrow> findall_from space_digit 0 cs)"

definition findall :: "bool \<Rightarrow> string \<Rightarrow> string list" where
  "findall space_digit txt = findall_from space_digit 0 txt"

subsection \<open>\<^verbatim>\<open>parse_doi\<close>\<close>

text \<open>The cleaning of the first match: \<^verbatim>\<open>match.replace('\n','').strip('.')\<close>, then the spaces.\<close>

definition clean :: "bool \<Rightarrow> string \<Rightarrow> string" where
  "clean space_digit match =
     (let doi = strip_chars ''.'' (replace [newline] [] match)
      in if space_digit then replace '' '' ''_'' doi else doi)"

definition parse_doi :: "string \<Rightarrow> bool \<Rightarrow> error + string" where
  "parse_doi txt space_digit =
     (let matches = findall space_digit (lower txt) in
      if matches = [] then Inl (ValueError ''no matches'')
      else
        let doi = clean space_digit (hd matches)
        in if length doi > 8 then Inr doi
           else Inl (AssertionError (''failed to extract doi: '' @ doi)))"

section \<open>Paths\<close>

text \<open>The functions of \<^verbatim>\<open>os.path\<close> the program calls, as \<^verbatim>\<open>posixpath\<close> defines them.\<close>

definition slash :: char where
  "slash = CHR ''/''"

text \<open>\<^verbatim>\<open>os.path.join(a, b)\<close>: an absolute \<^verbatim>\<open>b\<close> discards \<^verbatim>\<open>a\<close>.\<close>

definition path_join :: "string \<Rightarrow> string \<Rightarrow> string" where
  "path_join a b =
     (if b \<noteq> [] \<and> hd b = slash then b
      else if a = [] \<or> last a = slash then a @ b
      else a @ [slash] @ b)"

text \<open>\<^verbatim>\<open>os.path.basename(p)\<close>: what follows the last slash.\<close>

definition basename :: "string \<Rightarrow> string" where
  "basename p = rev (takeWhile (\<lambda>c. c \<noteq> slash) (rev p))"

text \<open>
  \<^verbatim>\<open>os.path.dirname(p)\<close>: what precedes the last slash, without its trailing slashes
  unless it consists of slashes only.
\<close>

definition dirname :: "string \<Rightarrow> string" where
  "dirname p =
     (let head = rev (dropWhile (\<lambda>c. c \<noteq> slash) (rev p)) in
      if head \<noteq> [] \<and> \<not> list_all (\<lambda>c. c = slash) head
      then rev (dropWhile (\<lambda>c. c = slash) (rev head))
      else head)"

text \<open>
  \<^verbatim>\<open>os.path.splitext(p)\<close>: the extension starts at the last dot of the base name, if a
  character other than a dot precedes it there.
\<close>

definition splitext :: "string \<Rightarrow> string \<times> string" where
  "splitext p =
     (let b = basename p;
          ext = rev (takeWhile (\<lambda>c. c \<noteq> CHR ''.'') (rev b));
          stem = take (length b - length ext - 1) b
      in if CHR ''.'' \<in> set b \<and> \<not> list_all (\<lambda>c. c = CHR ''.'') stem
         then (take (length p - length ext - 1) p, CHR ''.'' # ext)
         else (p, []))"

section \<open>The file system and the outside world\<close>

text \<open>
  A file system is the contents of its files and the set of its directories. The global
  \<^verbatim>\<open>DRYRUN\<close> of the module, the requests sent to the lookup service and the cache held by
  the closure of \<^verbatim>\<open>fetch_bibtex\<close> make up the rest of the state.
\<close>

record fsys =
  fs_files :: "string \<rightharpoonup> string"
  fs_dirs :: "string set"

type_synonym entry = "string \<rightharpoonup> string"

record world =
  fs :: fsys
  DRYRUN :: bool
  requests :: "string list"
  bibtex_cache :: "string \<rightharpoonup> string"

text \<open>
  The collaborators: the process started by \<^verbatim>\<open>subprocess.check_call\<close> (it may change the
  file system, and fails with a non-zero exit status), \<^verbatim>\<open>urllib2.urlopen(url).read()\<close>,
  \<^verbatim>\<open>bibtexparser.loads\<close> and \<^verbatim>\<open>dumps\<close>, \<^verbatim>\<open>json.loads\<close> and \<^verbatim>\<open>json.dumps\<close>.
\<close>

record env =
  check_call :: "string list \<Rightarrow> fsys \<Rightarrow> error option \<times> fsys"
  urlopen :: "string \<Rightarrow> error + string"
  bib_loads :: "string \<Rightarrow> error + entry list"
  bib_dumps :: "entry list \<Rightarrow> string"
  json_loads :: "string \<Rightarrow> error + (string \<rightharpoonup> string)"
  json_dumps :: "(string \<rightharpoonup> string) \<Rightarrow> string"

definition path_exists :: "string \<Rightarrow> fsys \<Rightarrow> bool" where
  "path_exists p f \<longleftrightarrow> fs_files f p \<noteq> None \<or> p \<in> fs_dirs f"

text \<open>\<^verbatim>\<open>open(p).read()\<close>\<close>

definition read_file :: "string \<Rightarrow> fsys \<Rightarrow> error + string" where
  "read_file p f =
     (if p \<in> fs_dirs f then Inl (OSError p)
      else case fs_files f p of None \<Rightarrow> Inl (OSError p) | Some s \<Rightarrow> Inr s)"

text \<open>
  \<^verbatim>\<open>open(p, 'w').write(s)\<close>: the file is created or overwritten; it cannot be a directory
  and the directory that holds it must exist (the working directory \<^verbatim>\<open>''\<close> always does).
\<close>

definition write_file :: "string \<Rightarrow> string \<Rightarrow> fsys \<Rightarrow> error + fsys" where
  "write_file p s f =
     (if p = [] \<or> p \<in> fs_dirs f then Inl (OSError p)
      else if dirname p \<noteq> [] \<and> dirname p \<notin> fs_dirs f then Inl (OSError p)
      else Inr (f\<lparr>fs_files := (fs_files f)(p \<mapsto> s)\<rparr>))"

text \<open>\<^verbatim>\<open>os.remove(p)\<close>\<close>

definition remove_file :: "string \<Rightarrow> fsys \<Rightarrow> error + fsys" where
  "remove_file p f =
     (if p \<in> fs_dirs f \<or> fs_files f p = None then Inl (OSError p)
      else Inr (f\<lparr>fs_files := (fs_files f)(p := None)\<rparr>))"

text \<open>\<^verbatim>\<open>str(n)\<close> for a page number.\<close>

fun str_nat :: "nat \<Rightarrow> string" where
  "str_nat n =
     (if n < 10 then [''0123456789'' ! n]
      else str_nat (n div 10) @ [''0123456789'' ! (n mod 10)])"

subsection \<open>\<^verbatim>\<open>readpdf\<close> and \<^verbatim>\<open>extract_doi\<close>\<close>

definition readpdf ::
  "env \<Rightarrow> string \<Rightarrow> nat option \<Rightarrow> nat option \<Rightarrow> bool \<Rightarrow> world \<Rightarrow> (error + string) \<times> world" where
  "readpdf ev pdf first_page last_page keeptxt w =
     (let txtfile = replace ''.pdf'' ''.txt'' pdf;
          cmd = [''pdftotext'']
                @ (case first_page of None \<Rightarrow> [] | Some n \<Rightarrow> [''-f'', str_nat n])
                @ (case last_page of None \<Rightarrow> [] | Some n \<Rightarrow> [''-l'', str_nat n])
                @ [pdf]
      in case check_call ev cmd (fs w) of
           (Some err, f1) \<Rightarrow> (Inl err, w\<lparr>fs := f1\<rparr>)
         | (None, f1) \<Rightarrow>
             (case read_file txtfile f1 of
                Inl err \<Rightarrow> (Inl err, w\<lparr>fs := f1\<rparr>)
              | Inr txt \<Rightarrow>
                  if keeptxt then (Inr txt, w\<lparr>fs := f1\<rparr>)
                  else (case remove_file txtfile f1 of
                          Inl err \<Rightarrow> (Inl err, w\<lparr>fs := f1\<rparr>)
                        | Inr f2 \<Rightarrow> (Inr txt, w\<lparr>fs := f2\<rparr>))))"

text \<open>
  Only the \<^verbatim>\<open>ValueError\<close> of the first page is caught; every other failure of the first
  page ends the call, the second page unread.
\<close>

definition extract_doi :: "env \<Rightarrow> string \<Rightarrow> bool \<Rightarrow> world \<Rightarrow> (error + string) \<times> world" where
  "extract_doi ev pdf space_digit w =
     (case readpdf ev pdf (Some 1) (Some 1) False w of
        (Inl err, w1) \<Rightarrow> (Inl err, w1)
      | (Inr txt, w1) \<Rightarrow>
          (case parse_doi txt space_digit of
             Inl (ValueError msg) \<Rightarrow>
               (case readpdf ev pdf (Some 2) (Some 2) False w1 of
                  (Inl err, w2) \<Rightarrow> (Inl err, w2)
                | (Inr txt2, w2) \<Rightarrow> (parse_doi txt2 space_digit, w2))
           | r \<Rightarrow> (r, w1)))"

section \<open>File associations\<close>

text \<open>
  A record is a dictionary from field names to values. \<^verbatim>\<open>getentryfiles\<close> gives one item
  per token of the \<^verbatim>\<open>file\<close> field (\<open>entryfile\<close> is the body of its loop): the list
  \<^verbatim>\<open>ef.split(':')\<close>, of two elements or more, or the pair \<^verbatim>\<open>(ef, 'pdf')\<close>.
\<close>

definition entryfile :: "string \<Rightarrow> string list" where
  "entryfile ef = (if CHR '':'' \<in> set ef then split CHR '':'' ef else [ef, ''pdf''])"

definition getentryfiles :: "entry \<Rightarrow> string list list" where
  "getentryfiles e =
     (let fls = strip (case e ''file'' of None \<Rightarrow> [] | Some v \<Rightarrow> v) in
      if fls = [] then [] else map entryfile (split CHR '';'' fls))"

text \<open>The unpacking \<^verbatim>\<open>fname, ftype = item\<close>, which fails unless the item has two elements.\<close>

definition unpack2 :: "string list \<Rightarrow> error + (string \<times> string)" where
  "unpack2 item =
     (case item of
        [a, b] \<Rightarrow> Inr (a, b)
      | [] \<Rightarrow> Inl (ValueError ''need more than 0 values to unpack'')
      | [a] \<Rightarrow> Inl (ValueError ''need more than 1 value to unpack'')
      | _ \<Rightarrow> Inl (ValueError ''too many values to unpack''))"

text \<open>A comprehension over a function that may fail stops at the first failure.\<close>

fun mapM :: "('a \<Rightarrow> error + 'b) \<Rightarrow> 'a list \<Rightarrow> error + 'b list" where
  "mapM g [] = Inr []"
| "mapM g (x # xs) =
     (case g x of
        Inl err \<Rightarrow> Inl err
      | Inr y \<Rightarrow> (case mapM g xs of Inl err \<Rightarrow> Inl err | Inr ys \<Rightarrow> Inr (y # ys)))"

text \<open>
  \<^verbatim>\<open>setentryfiles\<close> changes the record in place; here the changed record is the result.
  The parameter \<^verbatim>\<open>interactive\<close> is not used by the program.
\<close>

definition setentryfiles :: "entry \<Rightarrow> string list \<Rightarrow> bool \<Rightarrow> error + entry" where
  "setentryfiles e fls overwrite =
     (case (if \<not> overwrite then mapM unpack2 (getentryfiles e) else Inr []) of
        Inl err \<Rightarrow> Inl err
      | Inr existing \<Rightarrow>
          let existingfiles = map fst existing;
              efiles = map (\<lambda>file. file @ '':'' @ drop 1 (snd (splitext file))) fls
          in Inr (e(''file'' \<mapsto> join '';'' (efiles @ existingfiles))))"

section \<open>Moving files\<close>

text \<open>
  \<^verbatim>\<open>os.makedirs(d)\<close> creates \<^verbatim>\<open>d\<close> and the directories above it; it fails on the empty
  path, on a path that exists and below a regular file.
\<close>

fun ancestors_upto :: "nat \<Rightarrow> string \<Rightarrow> string list" where
  "ancestors_upto 0 p = []"
| "ancestors_upto (Suc n) p =
     (let h = dirname p in if h = [] \<or> h = p then [] else h # ancestors_upto n h)"

definition ancestors :: "string \<Rightarrow> string list" where
  "ancestors p = ancestors_upto (length p) p"

definition makedirs :: "string \<Rightarrow> fsys \<Rightarrow> error + fsys" where
  "makedirs d f =
     (if d = [] \<or> path_exists d f then Inl (OSError d)
      else if list_ex (\<lambda>a. fs_files f a \<noteq> None) (ancestors d) then Inl (OSError d)
      else Inr (f\<lparr>fs_dirs := fs_dirs f \<union> set (d # ancestors d)\<rparr>))"

text \<open>
  \<^verbatim>\<open>shutil.move(src, dst)\<close> and \<^verbatim>\<open>shutil.copy(src, dst)\<close> for a regular file \<^verbatim>\<open>src\<close>: a
  destination that is a directory receives the file under its base name, and \<^verbatim>\<open>move\<close>
  refuses to replace a file there. A source that is not a regular file of the file
  system is a failure.
\<close>

definition rstrip_slash :: "string \<Rightarrow> string" where
  "rstrip_slash p = rev (dropWhile (\<lambda>c. c = slash) (rev p))"

definition shutil_move :: "string \<Rightarrow> string \<Rightarrow> fsys \<Rightarrow> error + fsys" where
  "shutil_move src dst f =
     (case fs_files f src of
        None \<Rightarrow> Inl (OSError src)
      | Some s \<Rightarrow>
          let real_dst = (if dst \<in> fs_dirs f then path_join dst (basename (rstrip_slash src)) else dst)
          in if dst \<in> fs_dirs f \<and> path_exists real_dst f then Inl (OSError real_dst)
             else if real_dst = src then Inr f
             else (case write_file real_dst s f of
                     Inl err \<Rightarrow> Inl err
                   | Inr f1 \<Rightarrow> Inr (f1\<lparr>fs_files := (fs_files f1)(src := None)\<rparr>)))"

definition shutil_copy :: "string \<Rightarrow> string \<Rightarrow> fsys \<Rightarrow> error + fsys" where
  "shutil_copy src dst f =
     (case fs_files f src of
        None \<Rightarrow> Inl (OSError src)
      | Some s \<Rightarrow>
          let real_dst = (if dst \<in> fs_dirs f then path_join dst (basename src) else dst)
          in if real_dst = src then Inl (OSError src)
             else write_file real_dst s f)"

text \<open>
  The log line of \<^verbatim>\<open>move\<close> is \<^verbatim>\<open>'mv ' + f1.decode('utf-8') + ' ' + f2\<close>: the bytes of
  \<^verbatim>\<open>f1\<close> must be UTF-8 and, the sum being a \<^verbatim>\<open>unicode\<close>, those of \<^verbatim>\<open>f2\<close> must be ASCII;
  otherwise a \<^verbatim>\<open>UnicodeDecodeError\<close>, which is a \<^verbatim>\<open>ValueError\<close>, is raised.
  The first argument of \<open>utf8_from\<close> is the number of continuation bytes still expected,
  the next two bound the first of them.
\<close>

fun utf8_from :: "nat \<Rightarrow> nat \<Rightarrow> nat \<Rightarrow> string \<Rightarrow> bool" where
  "utf8_from 0 lo hi [] = True"
| "utf8_from (Suc k) lo hi [] = False"
| "utf8_from 0 lo hi (c # cs) =
     (let n = (of_char c :: nat) in
      if n < 0x80 then utf8_from 0 0x80 0xBF cs
      else if 0xC2 \<le> n \<and> n \<le> 0xDF then utf8_from 1 0x80 0xBF cs
      else if n = 0xE0 then utf8_from 2 0xA0 0xBF cs
      else if 0xE1 \<le> n \<and> n \<le> 0xEF then utf8_from 2 0x80 0xBF cs
      else if n = 0xF0 then utf8_from 3 0x90 0xBF cs
      else if 0xF1 \<le> n \<and> n \<le> 0xF3 then utf8_from 3 0x80 0xBF cs
      else if n = 0xF4 then utf8_from 3 0x80 0x8F cs
      else False)"
| "utf8_from (Suc k) lo hi (c # cs) =
     (let n = (of_char c :: nat) in lo \<le> n \<and> n \<le> hi \<and> utf8_from k 0x80 0xBF cs)"

definition is_utf8 :: "string \<Rightarrow> bool" where
  "is_utf8 s = utf8_from 0 0x80 0xBF s"

definition is_ascii :: "string \<Rightarrow> bool" where
  "is_ascii s = list_all (\<lambda>c. (of_char c :: nat) < 0x80) s"

text \<open>
  \<^verbatim>\<open>move(f1, f2, copy)\<close>. The directory of \<^verbatim>\<open>f2\<close> is created also in a dry run; only the
  copy or the move itself is left out there.
\<close>

definition move :: "string \<Rightarrow> string \<Rightarrow> bool \<Rightarrow> world \<Rightarrow> (error + unit) \<times> world" where
  "move f1 f2 copy w =
     (let d = dirname f2 in
      case (if \<not> path_exists d (fs w) then makedirs d (fs w) else Inr (fs w)) of
        Inl err \<Rightarrow> (Inl err, w)
      | Inr fa \<Rightarrow>
          let w1 = w\<lparr>fs := fa\<rparr> in
          if \<not> is_utf8 f1 \<or> \<not> is_ascii f2 then (Inl (ValueError f1), w1)
          else if DRYRUN w1 then (Inr (), w1)
          else (case (if copy then shutil_copy f1 f2 fa else shutil_move f1 f2 fa) of
                  Inl err \<Rightarrow> (Inl err, w1)
                | Inr fb \<Rightarrow> (Inr (), w1\<lparr>fs := fb\<rparr>)))"

section \<open>The library: class \<^verbatim>\<open>MyRef\<close>\<close>

text \<open>
  The field \<open>entries\<close> is \<^verbatim>\<open>self.db.entries\<close> and \<open>txt_dir\<close> is \<^verbatim>\<open>self.txt\<close>.
\<close>

record MyRef =
  filesdir :: string
  txt_dir :: string
  bibtex :: string
  entries :: "entry list"
  key_field :: string

text \<open>\<^verbatim>\<open>key\<close>: \<^verbatim>\<open>e[self.key_field].lower()\<close>, a \<^verbatim>\<open>KeyError\<close> when the field is missing.\<close>

definition key :: "MyRef \<Rightarrow> entry \<Rightarrow> error + string" where
  "key my e =
     (case e (key_field my) of
        None \<Rightarrow> Inl (KeyError (key_field my))
      | Some v \<Rightarrow> Inr (lower v))"

text \<open>
  \<^verbatim>\<open>sort\<close>: \<^verbatim>\<open>sorted(entries, key=self.key)\<close> computes the key of every record once and
  sorts stably on the keys.
\<close>

definition MyRef_sort :: "MyRef \<Rightarrow> error + MyRef" where
  "MyRef_sort my =
     (case mapM (key my) (entries my) of
        Inl err \<Rightarrow> Inl err
      | Inr ks \<Rightarrow> Inr (my\<lparr>entries := map snd (sort_key fst (zip ks (entries my)))\<rparr>))"

text \<open>
  The constructor: \<^verbatim>\<open>bibtexparser.load(open(bibtex))\<close>, then \<^verbatim>\<open>sort\<close>.
\<close>

definition MyRef_init :: "env \<Rightarrow> string \<Rightarrow> string \<Rightarrow> string \<Rightarrow> world \<Rightarrow> error + MyRef" where
  "MyRef_init ev bib fdir kf w =
     (case read_file bib (fs w) of
        Inl err \<Rightarrow> Inl err
      | Inr s \<Rightarrow>
          (case bib_loads ev s of
             Inl err \<Rightarrow> Inl err
           | Inr es \<Rightarrow>
               MyRef_sort \<lparr>filesdir = fdir, txt_dir = ''/tmp'', bibtex = bib, entries = es, key_field = kf\<rparr>))"


text \<open>\<^verbatim>\<open>bisect.bisect_left(a, x)\<close>, the loop of the standard library.\<close>

function bisect_left_loop :: "'a::linorder list \<Rightarrow> 'a \<Rightarrow> nat \<Rightarrow> nat \<Rightarrow> nat" where
  "bisect_left_loop a x lo hi =
     (if lo < hi then
        (let mid = (lo + hi) div 2 in
         if a ! mid < x then bisect_left_loop a x (mid + 1) hi
         else bisect_left_loop a x lo mid)
      else lo)"
  by pat_completeness auto
termination
  by (relation "measure (\<lambda>(a, x, lo, hi). hi - lo)") auto

declare bisect_left_loop.simps [simp del]

definition bisect_left :: "'a::linorder list \<Rightarrow> 'a \<Rightarrow> nat" where
  "bisect_left a x = bisect_left_loop a x 0 (length a)"

text \<open>
  \<^verbatim>\<open>insert_entry\<close> returns a record of the collection. A record of the collection is
  an object shared with the caller, who changes it afterwards (\<^verbatim>\<open>add_pdf\<close>): the result
  is therefore the position of the returned record in the new collection, together with
  the new library. \<^verbatim>\<open>entries.insert(i, e)\<close> puts \<^verbatim>\<open>e\<close> before position \<^verbatim>\<open>i\<close>.
\<close>

definition insert_entry :: "MyRef \<Rightarrow> entry \<Rightarrow> bool \<Rightarrow> error + (nat \<times> MyRef)" where
  "insert_entry my e rep =
     (case mapM (key my) (entries my) of
        Inl err \<Rightarrow> Inl err
      | Inr keys \<Rightarrow>
          (case key my e of
             Inl err \<Rightarrow> Inl err
           | Inr k \<Rightarrow>
               let i = bisect_left keys k in
               if i < length keys \<and> keys ! i = k then
                 (if rep then Inr (i, my\<lparr>entries := (entries my)[i := e]\<rparr>)
                  else Inr (i, my))
               else Inr (i, my\<lparr>entries := take i (entries my) @ [e] @ drop i (entries my)\<rparr>)))"

text \<open>The record that \<^verbatim>\<open>insert_entry\<close> returns.\<close>

definition returned :: "nat \<times> MyRef \<Rightarrow> entry" where
  "returned r = entries (snd r) ! fst r"


subsection \<open>\<^verbatim>\<open>rename_entry_files\<close>\<close>

definition lookup :: "entry \<Rightarrow> string \<Rightarrow> error + string" where
  "lookup e k = (case e k of None \<Rightarrow> Inl (KeyError k) | Some v \<Rightarrow> Inr v)"

text \<open>
  The loop of the case of several files; the result is the list \<^verbatim>\<open>efiles\<close>. The counter
  of the loop is used by the log only.
\<close>

fun move_all :: "string \<Rightarrow> bool \<Rightarrow> string list list \<Rightarrow> world \<Rightarrow> (error + string list) \<times> world" where
  "move_all newdir copy [] w = (Inr [], w)"
| "move_all newdir copy (item # items) w =
     (case unpack2 item of
        Inl err \<Rightarrow> (Inl err, w)
      | Inr (file, ftype) \<Rightarrow>
          let newfile = path_join newdir (basename file) in
          (case (if file \<noteq> newfile then move file newfile copy w else (Inr (), w)) of
             (Inl err, w1) \<Rightarrow> (Inl err, w1)
           | (Inr u, w1) \<Rightarrow>
               (case move_all newdir copy items w1 of
                  (Inl err, w2) \<Rightarrow> (Inl err, w2)
                | (Inr efiles, w2) \<Rightarrow> (Inr ((file @ '':'' @ ftype) # efiles), w2))))"

text \<open>
  The record is changed in place by the program, and only by the last assignment to
  \<^verbatim>\<open>e['file']\<close>: the result is the record after the call, or the failure.
\<close>

definition rename_entry_files :: "MyRef \<Rightarrow> entry \<Rightarrow> bool \<Rightarrow> world \<Rightarrow> (error + entry) \<times> world" where
  "rename_entry_files my e copy w =
     (let fls = getentryfiles e in
      case lookup e ''year'' of
        Inl err \<Rightarrow> (Inl err, w)
      | Inr year \<Rightarrow>
          let direc = path_join (filesdir my) year in
          if fls = [] then (Inr e, w)
          else if length fls = 1 then
            (case unpack2 (fls ! 0) of
               Inl err \<Rightarrow> (Inl err, w)
             | Inr (file, type) \<Rightarrow>
                 (case lookup e ''ID'' of
                    Inl err \<Rightarrow> (Inl err, w)
                  | Inr ident \<Rightarrow>
                      let newfile = path_join direc (ident @ snd (splitext file)) in
                      (case (if file \<noteq> newfile then move file newfile copy w else (Inr (), w)) of
                         (Inl err, w1) \<Rightarrow> (Inl err, w1)
                       | (Inr u, w1) \<Rightarrow> (Inr (e(''file'' \<mapsto> newfile @ '':'' @ type)), w1))))
          else
            (case lookup e ''ID'' of
               Inl err \<Rightarrow> (Inl err, w)
             | Inr ident \<Rightarrow>
                 (case move_all (path_join direc ident) copy fls w of
                    (Inl err, w1) \<Rightarrow> (Inl err, w1)
                  | (Inr efiles, w1) \<Rightarrow> (Inr (e(''file'' \<mapsto> join '';'' efiles)), w1))))"

section \<open>The lookup cache\<close>

text \<open>
  \<^verbatim>\<open>cached(file)(fun)\<close>. The cache is a variable of the closure: \<open>cached\<close> gives its
  first value, read once when the module is loaded, and \<open>decorated\<close> takes the cache and
  gives it back. The wrapped function may change the world.
\<close>

definition cached :: "env \<Rightarrow> string \<Rightarrow> world \<Rightarrow> error + (string \<rightharpoonup> string)" where
  "cached ev file w =
     (if path_exists file (fs w) then
        (case read_file file (fs w) of Inl err \<Rightarrow> Inl err | Inr s \<Rightarrow> json_loads ev s)
      else Inr Map.empty)"

definition decorated ::
  "env \<Rightarrow> string \<Rightarrow> (string \<Rightarrow> world \<Rightarrow> (error + string) \<times> world) \<Rightarrow>
   string \<Rightarrow> (string \<rightharpoonup> string) \<Rightarrow> world \<Rightarrow> (error + string) \<times> (string \<rightharpoonup> string) \<times> world" where
  "decorated ev file fn doi cache w =
     (case cache doi of
        Some v \<Rightarrow> (Inr v, cache, w)
      | None \<Rightarrow>
          (case fn doi w of
             (Inl err, w1) \<Rightarrow> (Inl err, cache, w1)
           | (Inr res, w1) \<Rightarrow>
               let cache1 = cache(doi \<mapsto> res) in
               if \<not> DRYRUN w1 then
                 (case write_file file (json_dumps ev cache1) (fs w1) of
                    Inl err \<Rightarrow> (Inl err, cache1, w1)
                  | Inr f1 \<Rightarrow> (Inr res, cache1, w1\<lparr>fs := f1\<rparr>))
               else (Inr res, cache1, w1)))"

text \<open>The body of \<^verbatim>\<open>fetch_bibtex\<close>, and \<^verbatim>\<open>fetch_bibtex\<close> as decorated.\<close>

definition fetch_bibtex_body :: "env \<Rightarrow> string \<Rightarrow> world \<Rightarrow> (error + string) \<times> world" where
  "fetch_bibtex_body ev doi w =
     (let url = ''http://api.crossref.org/works/'' @ doi @ ''/transform/application/x-bibtex''
      in (urlopen ev url, w\<lparr>requests := requests w @ [url]\<rparr>))"

definition fetch_bibtex :: "env \<Rightarrow> string \<Rightarrow> world \<Rightarrow> (error + string) \<times> world" where
  "fetch_bibtex ev doi w =
     (case decorated ev ''.crossref-bibtex.json'' (fetch_bibtex_body ev) doi (bibtex_cache w) w of
        (r, cache1, w1) \<Rightarrow> (r, w1\<lparr>bibtex_cache := cache1\<rparr>))"

section \<open>The command \<^verbatim>\<open>add\<close>\<close>




section \<open>A small world\<close>

text \<open>
  The data of the examples below: one document \<^verbatim>\<open>paper.pdf\<close> in the working directory,
  whose first and second page are given; a text extraction utility that writes the page
  asked for to \<^verbatim>\<open>paper.txt\<close>; a lookup service that knows one record; a bibliography
  \<^verbatim>\<open>my.bib\<close> of two records, stored out of order.
\<close>

definition ex_entry :: entry where
  "ex_entry = [''ID'' \<mapsto> ''Smith2020'', ''year'' \<mapsto> ''2020'']"

definition ex_library :: "entry list" where
  "ex_library = [[''ID'' \<mapsto> ''Yool2011'', ''year'' \<mapsto> ''2011''],
                 [''ID'' \<mapsto> ''Perrette2011'', ''year'' \<mapsto> ''2011'']]"

definition ex_check_call :: "string \<Rightarrow> string \<Rightarrow> string list \<Rightarrow> fsys \<Rightarrow> error option \<times> fsys" where
  "ex_check_call page1 page2 cmd f =
     (None, f\<lparr>fs_files := (fs_files f)(''paper.txt'' \<mapsto>
        (if cmd = [''pdftotext'', ''-f'', ''1'', ''-l'', ''1'', ''paper.pdf''] then page1 else page2))\<rparr>)"

definition ex_env :: "string \<Rightarrow> string \<Rightarrow> env" where
  "ex_env page1 page2 =
     \<lparr>check_call = ex_check_call page1 page2,
      urlopen = (\<lambda>url. Inr ''@article{Smith2020, year = {2020}}''),
      bib_loads = (\<lambda>s. if s = [] then Inr [] else if s = ''@library'' then Inr ex_library
                        else Inr [ex_entry]),
      bib_dumps = (\<lambda>es. if es = [] then [] else ''@article{...}''),
      json_loads = (\<lambda>s. Inr Map.empty),
      json_dumps = (\<lambda>c. ''{...}'')\<rparr>"

definition ex_fsys :: fsys where
  "ex_fsys = \<lparr>fs_files = [''paper.pdf'' \<mapsto> ''%PDF'', ''my.bib'' \<mapsto> ''@library''], fs_dirs = {}\<rparr>"

definition ex_world :: world where
  "ex_world = \<lparr>fs = ex_fsys, DRYRUN = False, requests = [], bibtex_cache = Map.empty\<rparr>"

text \<open>
  The libraries that a sequence of calls of \<^verbatim>\<open>insert_entry\<close> makes of a library. A call that
  fails raises before it changes anything, and leaves the library as it is.
\<close>

inductive reachable :: "MyRef \<Rightarrow> MyRef \<Rightarrow> bool" where
  start: "reachable my my"
| call: "reachable my0 my \<Longrightarrow> insert_entry my e rep = Inr (i, my1) \<Longrightarrow> reachable my0 my1"

text \<open>The library that the constructor makes of \<^verbatim>\<open>my.bib\<close>.\<close>

definition ex_myref :: MyRef where
  "ex_myref = \<lparr>filesdir = ''files'', txt_dir = ''/tmp'', bibtex = ''my.bib'',
     entries = [[''ID'' \<mapsto> ''Perrette2011'', ''year'' \<mapsto> ''2011''],
                [''ID'' \<mapsto> ''Yool2011'', ''year'' \<mapsto> ''2011'']],
     key_field = ''ID''\<rparr>"

text \<open>
  A record with one file and a record with two, and a world where these files are in
  \<^verbatim>\<open>/tmp\<close>; the library keeps its files under \<^verbatim>\<open>/lib\<close>.
\<close>

definition ex_smith :: entry where
  "ex_smith = [''ID'' \<mapsto> ''smith2020'', ''year'' \<mapsto> ''2020'', ''file'' \<mapsto> ''/tmp/x.pdf'']"

definition ex_smith2 :: entry where
  "ex_smith2 = [''ID'' \<mapsto> ''smith2020'', ''year'' \<mapsto> ''2020'',
                ''file'' \<mapsto> ''/tmp/x.pdf:pdf;/tmp/s.zip:zip'']"

definition ex_tmp_world :: world where
  "ex_tmp_world =
     \<lparr>fs = \<lparr>fs_files = [''/tmp/x.pdf'' \<mapsto> ''%PDF'', ''/tmp/s.zip'' \<mapsto> ''PK''],
             fs_dirs = {''/'', ''/tmp''}\<rparr>,
      DRYRUN = False, requests = [], bibtex_cache = Map.empty\<rparr>"

definition ex_lib :: MyRef where
  "ex_lib = \<lparr>filesdir = ''/lib'', txt_dir = ''/tmp'', bibtex = ''my.bib'', entries = [],
             key_field = ''ID''\<rparr>"

text \<open>A lookup that fails, and the address that \<^verbatim>\<open>fetch_bibtex\<close> asks for a DOI.\<close>

definition ex_offline :: "string \<Rightarrow> world \<Rightarrow> (error + string) \<times> world" where
  "ex_offline doi w = (Inl (External ''offline''), w)"

definition ex_url :: string where
  "ex_url = ''http://api.crossref.org/works/10.1234/abc/transform/application/x-bibtex''"


section \<open>Verification\<close>

subsection \<open>The prefix of a DOI\<close>


text \<open>
  C1. The claim is that \<^verbatim>\<open>parse_doi\<close> matches a DOI only behind one of the prefixes
  \<^verbatim>\<open>doi:\<close>, \<^verbatim>\<open>doi: \<close>, \<^verbatim>\<open>doi \<close>, \<^verbatim>\<open>dx.doi.org/\<close> or \<^verbatim>\<open>doi/\<close>. The program does not keep it:
  the prefixes are joined into a character class, so that one character among
  \<^verbatim>\<open>d o i : | x . r g /\<close> and the space is enough. In the text \<^verbatim>\<open>x10.1234/abcdef \<close> no
  prefix precedes the DOI, and the DOI is returned, with and without the space-digit fix.
\<close>

theorem parse_doi_without_prefix:
  "parse_doi ''x10.1234/abcdef '' True = Inr ''10.1234/abcdef''
   \<and> parse_doi ''x10.1234/abcdef '' False = Inr ''10.1234/abcdef''"
  by code_simp

subsection \<open>The space-digit fix\<close>












subsection \<open>The failures of \<^verbatim>\<open>extract_doi\<close>\<close>

lemma parse_doi_cases:
  "parse_doi t sd =
     (if findall sd (lower t) = [] then Inl (ValueError ''no matches'')
      else if 8 < length (clean sd (hd (findall sd (lower t))))
           then Inr (clean sd (hd (findall sd (lower t))))
           else Inl (AssertionError (''failed to extract doi: '' @ clean sd (hd (findall sd (lower t))))))"
  by (simp add: parse_doi_def Let_def)

lemma match_here_length: "match_here sd t = Some m \<Longrightarrow> 8 \<le> length m"
  by (auto simp: match_here_def split: list.splits if_splits)

lemma findall_from_length: "m \<in> set (findall_from sd k t) \<Longrightarrow> 8 \<le> length m"
  by (induction sd k t rule: findall_from.induct)
     (auto split: option.splits dest: match_here_length)

text \<open>
  C4, as stated, fails on its example: \<^verbatim>\<open>10.1/ab\<close> is never a matched candidate, because
  the pattern asks for four digits after \<^verbatim>\<open>10.\<close>. A text with \<^verbatim>\<open>doi:10.1/ab, \<close> on both
  pages ends in the not-found error, not in the validation error.
\<close>

theorem short_candidate_not_found:
  "parse_doi ''doi:10.1/ab, '' True = Inl (ValueError ''no matches'')
   \<and> parse_doi ''doi:10.1/ab, '' False = Inl (ValueError ''no matches'')
   \<and> fst (extract_doi (ex_env ''doi:10.1/ab, '' ''doi:10.1/ab, '') ''paper.pdf'' True ex_world)
       = Inl (ValueError ''no matches'')"
proof -
  have a: "parse_doi ''doi:10.1/ab, '' True = Inl (ValueError ''no matches'')" by code_simp
  have b: "parse_doi ''doi:10.1/ab, '' False = Inl (ValueError ''no matches'')" by code_simp
  have r: "replace ''.pdf'' ''.txt'' ''paper.pdf'' = ''paper.txt''" by code_simp
  show ?thesis
    by (simp add: a b r extract_doi_def readpdf_def ex_env_def ex_check_call_def ex_world_def
        ex_fsys_def read_file_def remove_file_def)
qed

text \<open>
  C4, amended. When both pages are read, \<^verbatim>\<open>extract_doi\<close> fails with the not-found error
  (\<^verbatim>\<open>ValueError\<close>) exactly when the pattern matches on neither page, and with the
  validation error (\<^verbatim>\<open>AssertionError\<close>) exactly when the first match of the first page
  that has one is, once cleaned, of length 8 or less. Every match has at least the 8
  characters of \<^verbatim>\<open>10.\<close>, four digits and the slash. The boundary: the candidate
  \<^verbatim>\<open>10.1234/\<close>, of length 8, raises the validation error, and \<^verbatim>\<open>10.1234/a\<close>, of length
  9, is returned.
\<close>

theorem extract_doi_failures:
  assumes p1: "readpdf ev pdf (Some 1) (Some 1) False w = (Inr t1, w1)"
      and p2: "readpdf ev pdf (Some 2) (Some 2) False w1 = (Inr t2, w2)"
  shows "((\<exists>msg. fst (extract_doi ev pdf sd w) = Inl (ValueError msg))
            \<longleftrightarrow> findall sd (lower t1) = [] \<and> findall sd (lower t2) = [])
       \<and> ((\<exists>msg. fst (extract_doi ev pdf sd w) = Inl (AssertionError msg))
            \<longleftrightarrow> (let t = (if findall sd (lower t1) = [] then t2 else t1)
                 in findall sd (lower t) \<noteq> [] \<and> length (clean sd (hd (findall sd (lower t)))) \<le> 8))
       \<and> (\<forall>m \<in> set (findall sd (lower t1)) \<union> set (findall sd (lower t2)). 8 \<le> length m)
       \<and> parse_doi ''doi:10.1234/ '' sd = Inl (AssertionError ''failed to extract doi: 10.1234/'')
       \<and> parse_doi ''doi:10.1234/a '' sd = Inr ''10.1234/a''"
proof -
  have a: "parse_doi ''doi:10.1234/ '' sd = Inl (AssertionError ''failed to extract doi: 10.1234/'')"
    by (cases sd) (simp_all, code_simp+)
  have b: "parse_doi ''doi:10.1234/a '' sd = Inr ''10.1234/a''"
    by (cases sd) (simp_all, code_simp+)
  have c: "\<forall>m \<in> set (findall sd (lower t1)) \<union> set (findall sd (lower t2)). 8 \<le> length m"
    using findall_from_length by (auto simp: findall_def)
  have d: "(\<exists>msg. fst (extract_doi ev pdf sd w) = Inl (ValueError msg))
            \<longleftrightarrow> findall sd (lower t1) = [] \<and> findall sd (lower t2) = []"
    using p1 p2 by (simp add: extract_doi_def parse_doi_cases)
  have e: "(\<exists>msg. fst (extract_doi ev pdf sd w) = Inl (AssertionError msg))
            \<longleftrightarrow> (let t = (if findall sd (lower t1) = [] then t2 else t1)
                 in findall sd (lower t) \<noteq> [] \<and> length (clean sd (hd (findall sd (lower t)))) \<le> 8)"
    using p1 p2 by (auto simp add: extract_doi_def parse_doi_cases Let_def)
  from a b c d e show ?thesis by blast
qed

lemma ex_txtfile: "replace ''.pdf'' ''.txt'' ''paper.pdf'' = ''paper.txt''"
  by code_simp

lemma ex_readpdf_first:
  "readpdf (ex_env [] ''doi:10.1234/ '') ''paper.pdf'' (Some 1) (Some 1) False ex_world
   = (Inr [], ex_world\<lparr>fs := ex_fsys\<lparr>fs_files := (fs_files ex_fsys)(''paper.txt'' := None)\<rparr>\<rparr>)"
  by (simp add: ex_txtfile readpdf_def ex_env_def ex_check_call_def ex_world_def ex_fsys_def
      read_file_def remove_file_def)

lemma ex_readpdf_second:
  "readpdf (ex_env [] ''doi:10.1234/ '') ''paper.pdf'' (Some 2) (Some 2) False
    (ex_world\<lparr>fs := ex_fsys\<lparr>fs_files := (fs_files ex_fsys)(''paper.txt'' := None)\<rparr>\<rparr>)
   = (Inr ''doi:10.1234/ '',
      ex_world\<lparr>fs := ex_fsys\<lparr>fs_files := (fs_files ex_fsys)(''paper.txt'' := None)\<rparr>\<rparr>)"
  by (simp add: ex_txtfile readpdf_def ex_env_def ex_check_call_def ex_world_def ex_fsys_def
      read_file_def remove_file_def)

text \<open>A blank first page and a second page with the candidate of length 8.\<close>

theorem extract_doi_failures_witness:
  "readpdf (ex_env [] ''doi:10.1234/ '') ''paper.pdf'' (Some 1) (Some 1) False ex_world
     = (Inr [], ex_world\<lparr>fs := ex_fsys\<lparr>fs_files := (fs_files ex_fsys)(''paper.txt'' := None)\<rparr>\<rparr>)
   \<and> readpdf (ex_env [] ''doi:10.1234/ '') ''paper.pdf'' (Some 2) (Some 2) False
       (ex_world\<lparr>fs := ex_fsys\<lparr>fs_files := (fs_files ex_fsys)(''paper.txt'' := None)\<rparr>\<rparr>)
     = (Inr ''doi:10.1234/ '',
        ex_world\<lparr>fs := ex_fsys\<lparr>fs_files := (fs_files ex_fsys)(''paper.txt'' := None)\<rparr>\<rparr>)
   \<and> (\<exists>msg. fst (extract_doi (ex_env [] ''doi:10.1234/ '') ''paper.pdf'' True ex_world)
          = Inl (AssertionError msg))
   \<and> \<not> (\<exists>msg. fst (extract_doi (ex_env [] ''doi:10.1234/ '') ''paper.pdf'' True ex_world)
          = Inl (ValueError msg))"
proof -
  have f1: "findall True (lower []) = []" by code_simp
  have f2: "findall True (lower ''doi:10.1234/ '') = [''10.1234/'']" by code_simp
  have c: "clean True ''10.1234/'' = ''10.1234/''" by code_simp
  show ?thesis
    using extract_doi_failures [OF ex_readpdf_first ex_readpdf_second, of True]
      ex_readpdf_first ex_readpdf_second
    by (simp add: f1 f2 c)
qed

subsection \<open>The sorted collection\<close>

lemma mapM_iff: "mapM g xs = Inr ys \<longleftrightarrow> map g xs = map Inr ys"
proof (induction xs arbitrary: ys)
  case Nil then show ?case by auto
next
  case (Cons x xs)
  show ?case
  proof (cases "g x")
    case (Inl err) then show ?thesis by (cases ys) auto
  next
    case (Inr y)
    show ?thesis
    proof (cases "mapM g xs")
      case (Inl err)
      then have "\<And>zs. map g xs \<noteq> map Inr zs" using Cons.IH by (metis sum.distinct(1))
      then show ?thesis using Inl \<open>g x = Inr y\<close> by (cases ys) auto
    next
      case (Inr zs)
      then have "map g xs = map Inr zs" using Cons.IH by simp
      then show ?thesis using Inr \<open>g x = Inr y\<close>
        by (cases ys) (auto simp: inj_map_eq_map[OF inj_Inr])
    qed
  qed
qed

text \<open>
  \<^verbatim>\<open>bisect_left\<close> on a sorted list: the result is the position before which every
  element is smaller than \<^verbatim>\<open>x\<close> and from which none is.
\<close>

lemma bisect_left_loop_spec:
  assumes "sorted a" "lo \<le> hi" "hi \<le> length a"
      and "\<forall>j<lo. a ! j < x" "\<forall>j. hi \<le> j \<and> j < length a \<longrightarrow> x \<le> a ! j"
  shows "lo \<le> bisect_left_loop a x lo hi \<and> bisect_left_loop a x lo hi \<le> hi
       \<and> (\<forall>j < bisect_left_loop a x lo hi. a ! j < x)
       \<and> (\<forall>j. bisect_left_loop a x lo hi \<le> j \<and> j < length a \<longrightarrow> x \<le> a ! j)"
  using assms
proof (induction a x lo hi rule: bisect_left_loop.induct)
  case (1 a x lo hi)
  show ?case
  proof (cases "lo < hi")
    case False
    have "bisect_left_loop a x lo hi = lo"
      using False by (subst bisect_left_loop.simps) simp
    moreover have "lo = hi" using False "1.prems" by simp
    ultimately show ?thesis using "1.prems" by simp
  next
    case True
    let ?mid = "(lo + hi) div 2"
    have mid: "lo \<le> ?mid" "?mid < hi" using True by auto
    show ?thesis
    proof (cases "a ! ?mid < x")
      case lt: True
      have below: "\<forall>j < ?mid + 1. a ! j < x"
      proof (intro allI impI)
        fix j assume "j < ?mid + 1"
        then have "a ! j \<le> a ! ?mid" using \<open>sorted a\<close> mid "1.prems"(3)
          by (auto simp: sorted_iff_nth_mono)
        then show "a ! j < x" using lt by simp
      qed
      have le: "?mid + 1 \<le> hi" using mid by simp
      have eq: "bisect_left_loop a x lo hi = bisect_left_loop a x (?mid + 1) hi"
        using True lt by (subst bisect_left_loop.simps) (simp add: Let_def)
      from "1.IH"(1)[OF True refl lt \<open>sorted a\<close> le "1.prems"(3) below "1.prems"(5)]
      show ?thesis using mid unfolding eq by auto
    next
      case ge: False
      have above: "\<forall>j. ?mid \<le> j \<and> j < length a \<longrightarrow> x \<le> a ! j"
      proof (intro allI impI)
        fix j assume "?mid \<le> j \<and> j < length a"
        then have "a ! ?mid \<le> a ! j" using \<open>sorted a\<close> by (auto simp: sorted_iff_nth_mono)
        then show "x \<le> a ! j" using ge by simp
      qed
      have le: "?mid \<le> length a" using mid "1.prems"(3) by simp
      have eq: "bisect_left_loop a x lo hi = bisect_left_loop a x lo ?mid"
        using True ge by (subst bisect_left_loop.simps) (simp add: Let_def)
      from "1.IH"(2)[OF True refl ge \<open>sorted a\<close> mid(1) le "1.prems"(4) above]
      show ?thesis using mid unfolding eq by auto
    qed
  qed
qed

lemma bisect_left_spec:
  assumes "sorted a"
  shows "bisect_left a x \<le> length a
       \<and> (\<forall>j < bisect_left a x. a ! j < x)
       \<and> (\<forall>j. bisect_left a x \<le> j \<and> j < length a \<longrightarrow> x \<le> a ! j)"
proof -
  have "\<forall>j<0. a ! j < x" "\<forall>j. length a \<le> j \<and> j < length a \<longrightarrow> x \<le> a ! j" by auto
  from bisect_left_loop_spec[OF assms _ _ this] show ?thesis
    by (simp add: bisect_left_def)
qed

lemma bisect_left_unique:
  assumes "sorted a" "i \<le> length a" "\<forall>j<i. a ! j < x"
      and "\<forall>j. i \<le> j \<and> j < length a \<longrightarrow> x \<le> a ! j"
  shows "bisect_left a x = i"
proof -
  let ?b = "bisect_left a x"
  note b = bisect_left_spec[OF assms(1), of x]
  have "\<not> ?b < i"
  proof
    assume "?b < i"
    then have "a ! ?b < x" "x \<le> a ! ?b" using assms b by auto
    then show False by simp
  qed
  moreover have "\<not> i < ?b"
  proof
    assume "i < ?b"
    then have "a ! i < x" "x \<le> a ! i" using assms b by auto
    then show False by simp
  qed
  ultimately show ?thesis by simp
qed

lemma bisect_left_present:
  assumes "sorted a" "x \<in> set a"
  shows "bisect_left a x < length a \<and> a ! bisect_left a x = x"
proof -
  let ?b = "bisect_left a x"
  note b = bisect_left_spec[OF assms(1), of x]
  obtain j where j: "j < length a" "a ! j = x" using assms(2) by (auto simp: in_set_conv_nth)
  have "?b \<le> j" using b j by (metis less_irrefl not_le_imp_less)
  then have "?b < length a" using j by simp
  moreover have "a ! ?b \<le> a ! j"
    using sorted_iff_nth_mono[THEN iffD1, OF assms(1), rule_format, of ?b j] \<open>?b \<le> j\<close> j(1) by simp
  moreover have "x \<le> a ! ?b" using b \<open>?b < length a\<close> by simp
  ultimately show ?thesis using j by simp
qed

lemma bisect_left_absent:
  assumes "sorted a" "x \<notin> set a"
  shows "\<not> (bisect_left a x < length a \<and> a ! bisect_left a x = x)"
  using assms by (metis nth_mem)

lemma sorted_insert_at:
  assumes "sorted a"
  shows "sorted (take (bisect_left a x) a @ [x] @ drop (bisect_left a x) a)"
proof -
  let ?b = "bisect_left a x"
  note b = bisect_left_spec[OF assms, of x]
  have lo: "\<forall>y \<in> set (take ?b a). y \<le> x"
    using b by (fastforce simp: in_set_conv_nth)
  have hi: "\<forall>y \<in> set (drop ?b a). x \<le> y"
    using b by (fastforce simp: in_set_conv_nth)
  have "sorted (take ?b a)" "sorted (drop ?b a)" using assms by (simp_all add: sorted_wrt_take sorted_wrt_drop)
  then show ?thesis using lo hi by (auto simp: sorted_append intro: order_trans)
qed

lemma key_entries_update [simp]: "key (my\<lparr>entries := es\<rparr>) = key my"
  by (rule ext) (simp add: key_def split: option.splits)

lemma insert_entry_present:
  assumes "mapM (key my) (entries my) = Inr ks" "sorted ks" "key my e = Inr k" "k \<in> set ks"
  shows "insert_entry my e rep =
           Inr (bisect_left ks k, if rep then my\<lparr>entries := (entries my)[bisect_left ks k := e]\<rparr> else my)"
  using assms bisect_left_present[of ks k] by (simp add: insert_entry_def Let_def)

lemma insert_entry_absent:
  assumes "mapM (key my) (entries my) = Inr ks" "sorted ks" "key my e = Inr k" "k \<notin> set ks"
  shows "insert_entry my e rep =
           Inr (bisect_left ks k,
                my\<lparr>entries := take (bisect_left ks k) (entries my) @ [e] @ drop (bisect_left ks k) (entries my)\<rparr>)"
  using assms bisect_left_absent[of ks k] by (auto simp add: insert_entry_def Let_def)

lemma insert_entry_keys:
  assumes "mapM (key my) (entries my) = Inr ks" "sorted ks" "insert_entry my e rep = Inr (i, my1)"
  shows "\<exists>ks1. mapM (key my1) (entries my1) = Inr ks1 \<and> sorted ks1 \<and> key_field my1 = key_field my"
proof -
  obtain k where k: "key my e = Inr k"
    using assms(1,3) by (cases "key my e") (auto simp: insert_entry_def)
  have m: "map (key my) (entries my) = map Inr ks" using assms(1) by (simp add: mapM_iff)
  let ?b = "bisect_left ks k"
  show ?thesis
  proof (cases "k \<in> set ks")
    case True
    note p = bisect_left_present[OF assms(2) True]
    have "ks[?b := k] = ks" using p by (metis list_update_id)
    then have u: "map (key my) ((entries my)[?b := e]) = map Inr ks"
      using m k by (metis map_update)
    have "my1 = (if rep then my\<lparr>entries := (entries my)[?b := e]\<rparr> else my)"
      using insert_entry_present[OF assms(1,2) k True, of rep] assms(3) by simp
    then have "mapM (key my1) (entries my1) = Inr ks" "key_field my1 = key_field my"
      using u assms(1) by (auto simp: mapM_iff)
    then show ?thesis using assms(2) by blast
  next
    case False
    have u: "map (key my) (take ?b (entries my) @ [e] @ drop ?b (entries my))
            = map Inr (take ?b ks @ [k] @ drop ?b ks)"
      using k arg_cong[OF m, of "take ?b"] arg_cong[OF m, of "drop ?b"]
      by (simp add: take_map drop_map)
    have "my1 = my\<lparr>entries := take ?b (entries my) @ [e] @ drop ?b (entries my)\<rparr>"
      using insert_entry_absent[OF assms(1,2) k False, of rep] assms(3) by simp
    then have "mapM (key my1) (entries my1) = Inr (take ?b ks @ [k] @ drop ?b ks)"
      "key_field my1 = key_field my"
      using u by (simp_all add: mapM_iff)
    then show ?thesis using sorted_insert_at[OF assms(2), of k] by blast
  qed
qed

lemma MyRef_sort_keys:
  assumes "MyRef_sort my = Inr my1"
  shows "\<exists>ks1. mapM (key my1) (entries my1) = Inr ks1 \<and> sorted ks1 \<and> key_field my1 = key_field my"
proof -
  obtain ks where ks: "mapM (key my) (entries my) = Inr ks"
    using assms by (cases "mapM (key my) (entries my)") (auto simp: MyRef_sort_def)
  let ?zs = "sort_key fst (zip ks (entries my))"
  have my1: "my1 = my\<lparr>entries := map snd ?zs\<rparr>" using assms ks by (simp add: MyRef_sort_def)
  have m: "map (key my) (entries my) = map Inr ks" using ks by (simp add: mapM_iff)
  then have len: "length (entries my) = length ks" by (metis length_map)
  have "\<forall>(k, e) \<in> set (zip ks (entries my)). key my e = Inr k"
  proof (clarify)
    fix k e assume "(k, e) \<in> set (zip ks (entries my))"
    then obtain i where "i < length ks" "ks ! i = k" "entries my ! i = e"
      by (auto simp: set_zip)
    then show "key my e = Inr k" using m len by (metis nth_map)
  qed
  then have "\<forall>(k, e) \<in> set ?zs. key my e = Inr k" by simp
  then have "map (key my) (map snd ?zs) = map Inr (map fst ?zs)" by auto
  then have A: "mapM (key my1) (entries my1) = Inr (map fst ?zs)"
    by (simp add: mapM_iff my1)
  have B: "sorted (map fst ?zs)" by (rule sorted_sort_key)
  have C: "key_field my1 = key_field my" by (simp add: my1)
  from A B C show ?thesis by blast
qed

text \<open>
  C2. Whatever bibliography the constructor of \<^verbatim>\<open>MyRef\<close> loads, and whatever calls of
  \<^verbatim>\<open>insert_entry\<close> follow, with \<^verbatim>\<open>replace\<close> true or false, the keys of the records
  (the value of the key field in lower case) can be computed and are in non-decreasing
  order, after the construction and after every call.
\<close>

theorem keys_sorted_always:
  assumes "MyRef_init ev bib fdir kf w = Inr my0" and "reachable my0 my"
  shows "\<exists>ks. mapM (key my) (entries my) = Inr ks \<and> sorted ks"
  using assms(2,1)
proof (induction rule: reachable.induct)
  case (start my)
  then obtain s es where "MyRef_sort \<lparr>filesdir = fdir, txt_dir = ''/tmp'', bibtex = bib, entries = es, key_field = kf\<rparr> = Inr my"
    by (auto simp: MyRef_init_def split: sum.splits)
  from MyRef_sort_keys[OF this] show ?case by blast
next
  case (call my0 my e rep i my1)
  then obtain ks where "mapM (key my) (entries my) = Inr ks" "sorted ks" by blast
  from insert_entry_keys[OF this call.hyps(2)] show ?case by blast
qed

lemma ex_init: "MyRef_init (ex_env [] []) ''my.bib'' ''files'' ''ID'' ex_world = Inr ex_myref"
  by (simp add: MyRef_init_def read_file_def ex_env_def ex_world_def ex_fsys_def ex_library_def
      MyRef_sort_def key_def lower_def lower_char_def ex_myref_def)

lemma ex_keys: "mapM (key ex_myref) (entries ex_myref) = Inr [''perrette2011'', ''yool2011'']"
  by (simp add: ex_myref_def key_def lower_def lower_char_def)

lemma ex_sorted: "sorted [''perrette2011'', ''yool2011'']"
  by simp

lemma ex_bisect: "bisect_left [''perrette2011'', ''yool2011''] ''smith2020'' = 1"
  by code_simp

lemma ex_key_new: "key ex_myref ex_entry = Inr ''smith2020''"
  by (simp add: ex_myref_def ex_entry_def key_def lower_def lower_char_def)

lemma ex_insert:
  "insert_entry ex_myref ex_entry False =
     Inr (1, ex_myref\<lparr>entries := take 1 (entries ex_myref) @ [ex_entry] @ drop 1 (entries ex_myref)\<rparr>)"
proof -
  have "''smith2020'' \<notin> set [''perrette2011'', ''yool2011'']" by simp
  from insert_entry_absent[OF ex_keys ex_sorted ex_key_new this, of False]
  show ?thesis unfolding ex_bisect .
qed

theorem keys_sorted_always_witness:
  "MyRef_init (ex_env [] []) ''my.bib'' ''files'' ''ID'' ex_world = Inr ex_myref
   \<and> reachable ex_myref
        (ex_myref\<lparr>entries := take 1 (entries ex_myref) @ [ex_entry] @ drop 1 (entries ex_myref)\<rparr>)
   \<and> (\<exists>ks. mapM (key (ex_myref\<lparr>entries := take 1 (entries ex_myref) @ [ex_entry] @ drop 1 (entries ex_myref)\<rparr>))
              (entries (ex_myref\<lparr>entries := take 1 (entries ex_myref) @ [ex_entry] @ drop 1 (entries ex_myref)\<rparr>))
            = Inr ks
           \<and> sorted ks)"
proof -
  have r: "reachable ex_myref
        (ex_myref\<lparr>entries := take 1 (entries ex_myref) @ [ex_entry] @ drop 1 (entries ex_myref)\<rparr>)"
    by (rule reachable.call[OF reachable.start ex_insert])
  show ?thesis
    by (intro conjI ex_init r keys_sorted_always[OF ex_init r])
qed

subsection \<open>Insertion of a key that is present\<close>

text \<open>
  C3. In a library whose keys are sorted (every library is, by C2), let the record \<^verbatim>\<open>e\<close>
  have the key \<^verbatim>\<open>k\<close>. If \<^verbatim>\<open>k\<close> is the key of a record of the collection, then
  \<^verbatim>\<open>insert_entry(e, replace=False)\<close> leaves the library as it is and returns a record
  of the collection with the key \<^verbatim>\<open>k\<close>, and \<^verbatim>\<open>insert_entry(e, replace=True)\<close> writes
  \<^verbatim>\<open>e\<close> over that record, at its position. Hence a second insertion of the key \<^verbatim>\<open>k\<close>
  without replacement, after a first one of any outcome, changes nothing and returns
  the same record.
\<close>

theorem insert_entry_existing:
  assumes inv: "mapM (key my) (entries my) = Inr ks" "sorted ks"
      and ke: "key my e = Inr k"
  shows "(k \<in> set ks \<longrightarrow>
            (\<exists>i < length (entries my).
                 key my (entries my ! i) = Inr k
               \<and> insert_entry my e False = Inr (i, my)
               \<and> returned (i, my) = entries my ! i
               \<and> insert_entry my e True = Inr (i, my\<lparr>entries := (entries my)[i := e]\<rparr>)))
       \<and> (\<forall>e2 r. key my e2 = Inr k \<and> insert_entry my e False = Inr r
                   \<longrightarrow> insert_entry (snd r) e2 False = Inr r)"
proof (intro conjI impI allI)
  assume present: "k \<in> set ks"
  let ?b = "bisect_left ks k"
  have m: "map (key my) (entries my) = map Inr ks" using inv(1) by (simp add: mapM_iff)
  then have len: "length (entries my) = length ks" by (metis length_map)
  note p = bisect_left_present[OF inv(2) present]
  have "key my (entries my ! ?b) = Inr k" using m len p by (metis nth_map)
  then show "\<exists>i < length (entries my).
                 key my (entries my ! i) = Inr k
               \<and> insert_entry my e False = Inr (i, my)
               \<and> returned (i, my) = entries my ! i
               \<and> insert_entry my e True = Inr (i, my\<lparr>entries := (entries my)[i := e]\<rparr>)"
    using insert_entry_present[OF inv ke present, of False]
      insert_entry_present[OF inv ke present, of True] p len
    by (intro exI[of _ ?b]) (simp add: returned_def)
next
  fix e2 r
  assume a: "key my e2 = Inr k \<and> insert_entry my e False = Inr r"
  let ?b = "bisect_left ks k"
  show "insert_entry (snd r) e2 False = Inr r"
  proof (cases "k \<in> set ks")
    case True
    then show ?thesis
      using insert_entry_present[OF inv ke True, of False]
        insert_entry_present[OF inv _ True, of e2 False] a by simp
  next
    case False
    let ?ks1 = "take ?b ks @ [k] @ drop ?b ks"
    let ?my1 = "my\<lparr>entries := take ?b (entries my) @ [e] @ drop ?b (entries my)\<rparr>"
    have r: "r = (?b, ?my1)" using insert_entry_absent[OF inv ke False, of False] a by simp
    have m: "map (key my) (entries my) = map Inr ks" using inv(1) by (simp add: mapM_iff)
    have "map (key my) (take ?b (entries my) @ [e] @ drop ?b (entries my)) = map Inr ?ks1"
      using ke arg_cong[OF m, of "take ?b"] arg_cong[OF m, of "drop ?b"]
      by (simp add: take_map drop_map)
    then have k1: "mapM (key ?my1) (entries ?my1) = Inr ?ks1" by (simp add: mapM_iff)
    have s1: "sorted ?ks1" by (rule sorted_insert_at[OF inv(2)])
    note b = bisect_left_spec[OF inv(2), of k]
    have bl: "?b \<le> length ks" using b by simp
    have "bisect_left ?ks1 k = ?b"
    proof (rule bisect_left_unique[OF s1])
      show "?b \<le> length ?ks1" using bl by simp
      show "\<forall>j<?b. ?ks1 ! j < k" using b bl by (simp add: nth_append)
      show "\<forall>j. ?b \<le> j \<and> j < length ?ks1 \<longrightarrow> k \<le> ?ks1 ! j"
      proof (intro allI impI)
        fix j assume j: "?b \<le> j \<and> j < length ?ks1"
        show "k \<le> ?ks1 ! j"
        proof (cases "j = ?b")
          case True then show ?thesis using bl by (simp add: nth_append)
        next
          case False
          then have "?ks1 ! j = ks ! (j - 1)" using j bl
            by (auto simp: nth_append nth_Cons' min_def)
          moreover have "?b \<le> j - 1" "j - 1 < length ks" using j False bl by auto
          ultimately show ?thesis using b by simp
        qed
      qed
    qed
    moreover have "k \<in> set ?ks1" by simp
    ultimately show ?thesis
      using insert_entry_present[OF k1 s1, of e2 k False] a r by simp
  qed
qed

lemma ex_key_upper: "key ex_myref [''ID'' \<mapsto> ''YOOL2011''] = Inr ''yool2011''"
  by (simp add: ex_myref_def key_def lower_def lower_char_def)

theorem insert_entry_existing_witness:
  "mapM (key ex_myref) (entries ex_myref) = Inr [''perrette2011'', ''yool2011'']
   \<and> sorted [''perrette2011'', ''yool2011'']
   \<and> key ex_myref [''ID'' \<mapsto> ''YOOL2011''] = Inr ''yool2011''
   \<and> ''yool2011'' \<in> set [''perrette2011'', ''yool2011'']
   \<and> (\<exists>i < length (entries ex_myref).
          key ex_myref (entries ex_myref ! i) = Inr ''yool2011''
        \<and> insert_entry ex_myref [''ID'' \<mapsto> ''YOOL2011''] False = Inr (i, ex_myref)
        \<and> returned (i, ex_myref) = entries ex_myref ! i
        \<and> insert_entry ex_myref [''ID'' \<mapsto> ''YOOL2011''] True
            = Inr (i, ex_myref\<lparr>entries := (entries ex_myref)[i := [''ID'' \<mapsto> ''YOOL2011'']]\<rparr>))"
proof -
  have p: "''yool2011'' \<in> set [''perrette2011'', ''yool2011'']" by simp
  from insert_entry_existing[OF ex_keys ex_sorted ex_key_upper, THEN conjunct1, rule_format, OF p]
  show ?thesis
    by (intro conjI ex_keys ex_sorted ex_key_upper p)
qed

subsection \<open>The files of a record\<close>

text \<open>
  C5. The claim is that \<^verbatim>\<open>setentryfiles\<close> with \<^verbatim>\<open>overwrite=False\<close> keeps every association
  that was there, its path and its type. The program does not keep the type: it takes
  the names only (\<^verbatim>\<open>[fname for fname, ftype in getentryfiles(e)]\<close>) and writes them back
  bare, so that they are read back with the type \<^verbatim>\<open>pdf\<close>. A record with the file
  \<^verbatim>\<open>notes.txt\<close> of type \<^verbatim>\<open>txt\<close>, to which \<^verbatim>\<open>paper.pdf\<close> is added, ends with \<^verbatim>\<open>notes.txt\<close>
  of type \<^verbatim>\<open>pdf\<close>.
\<close>

theorem setentryfiles_append_loses_type:
  "getentryfiles [''file'' \<mapsto> ''notes.txt:txt''] = [[''notes.txt'', ''txt'']]
   \<and> setentryfiles [''file'' \<mapsto> ''notes.txt:txt''] [''paper.pdf''] False
       = Inr ([''file'' \<mapsto> ''notes.txt:txt''](''file'' \<mapsto> ''paper.pdf:pdf;notes.txt''))
   \<and> getentryfiles ([''file'' \<mapsto> ''notes.txt:txt''](''file'' \<mapsto> ''paper.pdf:pdf;notes.txt''))
       = [[''paper.pdf'', ''pdf''], [''notes.txt'', ''pdf'']]"
proof -
  have a: "getentryfiles [''file'' \<mapsto> ''notes.txt:txt''] = [[''notes.txt'', ''txt'']]"
    by code_simp
  have b: "splitext ''paper.pdf'' = (''paper'', ''.pdf'')" by code_simp
  have c: "getentryfiles ([''file'' \<mapsto> ''notes.txt:txt''](''file'' \<mapsto> ''paper.pdf:pdf;notes.txt''))
       = [[''paper.pdf'', ''pdf''], [''notes.txt'', ''pdf'']]"
    by code_simp
  have d: "setentryfiles [''file'' \<mapsto> ''notes.txt:txt''] [''paper.pdf''] False
       = Inr ([''file'' \<mapsto> ''notes.txt:txt''](''file'' \<mapsto> ''paper.pdf:pdf;notes.txt''))"
    by (simp add: setentryfiles_def a b unpack2_def)
  from a c d show ?thesis by blast
qed

subsection \<open>Renaming the file of a record\<close>

lemma smith_paths:
  "splitext ''/tmp/x.pdf'' = (''/tmp/x'', ''.pdf'')"
  "path_join ''/lib'' ''2020'' = ''/lib/2020''"
  "path_join ''/lib/2020'' ''smith2020.pdf'' = ''/lib/2020/smith2020.pdf''"
  "dirname ''/lib/2020/smith2020.pdf'' = ''/lib/2020''"
  "ancestors ''/lib/2020'' = [''/lib'', ''/'']"
  "is_utf8 ''/tmp/x.pdf''"
  "is_ascii ''/lib/2020/smith2020.pdf''"
  by code_simp+

text \<open>
  C8. Let a record have the identifier \<^verbatim>\<open>smith2020\<close>, the year \<^verbatim>\<open>2020\<close> and the single
  file \<^verbatim>\<open>/tmp/x.pdf\<close>, which exists, and let the files of the library be under \<^verbatim>\<open>/lib\<close>.
  Outside a dry run, and provided that the target is not a directory and that none of
  \<^verbatim>\<open>/lib/2020\<close>, \<^verbatim>\<open>/lib\<close> and \<^verbatim>\<open>/\<close> is a regular file, \<^verbatim>\<open>rename_entry_files\<close> succeeds, the
  contents of the file are at \<^verbatim>\<open>/lib/2020/smith2020.pdf\<close> afterwards (and no longer at
  \<^verbatim>\<open>/tmp/x.pdf\<close> unless the file was copied), and the files field of the record is
  \<^verbatim>\<open>/lib/2020/smith2020.pdf:pdf\<close>, which reads back as that one path.
\<close>

theorem rename_single_file:
  assumes e: "e ''ID'' = Some ''smith2020''" "e ''year'' = Some ''2020''"
             "getentryfiles e = [[''/tmp/x.pdf'', ''pdf'']]"
      and my: "filesdir my = ''/lib''"
      and src: "fs_files (fs w) ''/tmp/x.pdf'' = Some c"
      and dry: "\<not> DRYRUN w"
      and tgt: "''/lib/2020/smith2020.pdf'' \<notin> fs_dirs (fs w)"
      and par: "fs_files (fs w) ''/lib/2020'' = None" "fs_files (fs w) ''/lib'' = None"
               "fs_files (fs w) ''/'' = None"
  shows "\<exists>w1. rename_entry_files my e copy w
                 = (Inr (e(''file'' \<mapsto> ''/lib/2020/smith2020.pdf:pdf'')), w1)
              \<and> fs_files (fs w1) ''/lib/2020/smith2020.pdf'' = Some c
              \<and> fs_files (fs w1) ''/tmp/x.pdf'' = (if copy then Some c else None)
              \<and> getentryfiles (e(''file'' \<mapsto> ''/lib/2020/smith2020.pdf:pdf''))
                   = [[''/lib/2020/smith2020.pdf'', ''pdf'']]"
proof -
  have g: "getentryfiles (e(''file'' \<mapsto> ''/lib/2020/smith2020.pdf:pdf''))
                   = [[''/lib/2020/smith2020.pdf'', ''pdf'']]"
    by (simp add: getentryfiles_def) code_simp
  show ?thesis
  proof (cases "''/lib/2020'' \<in> fs_dirs (fs w)")
    case True
    then show ?thesis using assms g
      by (cases copy)
         (simp_all add: rename_entry_files_def lookup_def unpack2_def smith_paths move_def
          Let_def path_exists_def shutil_move_def shutil_copy_def write_file_def)
  next
    case False
    then show ?thesis using assms g
      by (cases copy)
         (simp_all add: rename_entry_files_def lookup_def unpack2_def smith_paths move_def
          Let_def path_exists_def makedirs_def shutil_move_def shutil_copy_def write_file_def)
  qed
qed

lemma ex_smith_files: "getentryfiles ex_smith = [[''/tmp/x.pdf'', ''pdf'']]"
  by (simp add: ex_smith_def getentryfiles_def) code_simp

theorem rename_single_file_witness:
  "ex_smith ''ID'' = Some ''smith2020'' \<and> ex_smith ''year'' = Some ''2020''
   \<and> getentryfiles ex_smith = [[''/tmp/x.pdf'', ''pdf'']]
   \<and> filesdir ex_lib = ''/lib''
   \<and> fs_files (fs ex_tmp_world) ''/tmp/x.pdf'' = Some ''%PDF''
   \<and> \<not> DRYRUN ex_tmp_world
   \<and> ''/lib/2020/smith2020.pdf'' \<notin> fs_dirs (fs ex_tmp_world)
   \<and> fs_files (fs ex_tmp_world) ''/lib/2020'' = None
   \<and> fs_files (fs ex_tmp_world) ''/lib'' = None
   \<and> fs_files (fs ex_tmp_world) ''/'' = None
   \<and> (\<exists>w1. rename_entry_files ex_lib ex_smith False ex_tmp_world
                 = (Inr (ex_smith(''file'' \<mapsto> ''/lib/2020/smith2020.pdf:pdf'')), w1)
              \<and> fs_files (fs w1) ''/lib/2020/smith2020.pdf'' = Some ''%PDF''
              \<and> fs_files (fs w1) ''/tmp/x.pdf'' = None)"
proof -
  have h: "ex_smith ''ID'' = Some ''smith2020''" "ex_smith ''year'' = Some ''2020''"
    "filesdir ex_lib = ''/lib''"
    "fs_files (fs ex_tmp_world) ''/tmp/x.pdf'' = Some ''%PDF''"
    "\<not> DRYRUN ex_tmp_world"
    "''/lib/2020/smith2020.pdf'' \<notin> fs_dirs (fs ex_tmp_world)"
    "fs_files (fs ex_tmp_world) ''/lib/2020'' = None"
    "fs_files (fs ex_tmp_world) ''/lib'' = None"
    "fs_files (fs ex_tmp_world) ''/'' = None"
    by (simp_all add: ex_smith_def ex_lib_def ex_tmp_world_def)
  from rename_single_file[OF h(1,2) ex_smith_files h(3-9), of False]
  obtain w1 where
    "rename_entry_files ex_lib ex_smith False ex_tmp_world
       = (Inr (ex_smith(''file'' \<mapsto> ''/lib/2020/smith2020.pdf:pdf'')), w1)"
    "fs_files (fs w1) ''/lib/2020/smith2020.pdf'' = Some ''%PDF''"
    "fs_files (fs w1) ''/tmp/x.pdf'' = None"
    by auto
  then have "\<exists>w1. rename_entry_files ex_lib ex_smith False ex_tmp_world
                 = (Inr (ex_smith(''file'' \<mapsto> ''/lib/2020/smith2020.pdf:pdf'')), w1)
              \<and> fs_files (fs w1) ''/lib/2020/smith2020.pdf'' = Some ''%PDF''
              \<and> fs_files (fs w1) ''/tmp/x.pdf'' = None"
    by blast
  with h ex_smith_files show ?thesis by (intro conjI)
qed

subsection \<open>The lookup cache\<close>

text \<open>
  C10. The wrapper made by \<^verbatim>\<open>cached\<close>, for every wrapped function, cache and world.
  A DOI that is a key of the cache gives the cached value, and neither the world nor the
  cache changes: the wrapped function is not called (for \<^verbatim>\<open>fetch_bibtex\<close>, no request
  is sent). On a miss the wrapped function runs; when it succeeds its result is stored
  under the DOI, and the whole cache is written to the side file unless \<^verbatim>\<open>DRYRUN\<close> is
  set, in which case the file system is left as the function left it. When the wrapped
  function fails, the failure is the result and the cache is unchanged.
\<close>

theorem decorated_cache:
  "(cache doi = Some v \<longrightarrow>
      decorated ev side fn doi cache w = (Inr v, cache, w))
   \<and> (cache doi = None \<and> fn doi w = (Inr res, wb) \<and> DRYRUN wb \<longrightarrow>
      decorated ev side fn doi cache w = (Inr res, cache(doi \<mapsto> res), wb))
   \<and> (cache doi = None \<and> fn doi w = (Inr res, wb) \<and> \<not> DRYRUN wb
        \<and> write_file side (json_dumps ev (cache(doi \<mapsto> res))) (fs wb) = Inr fb \<longrightarrow>
      decorated ev side fn doi cache w = (Inr res, cache(doi \<mapsto> res), wb\<lparr>fs := fb\<rparr>)
      \<and> fs_files fb side = Some (json_dumps ev (cache(doi \<mapsto> res))))
   \<and> (cache doi = None \<and> fn doi w = (Inl err, wb) \<longrightarrow>
      decorated ev side fn doi cache w = (Inl err, cache, wb))
   \<and> (bibtex_cache w doi = Some v \<longrightarrow> fetch_bibtex ev doi w = (Inr v, w))
   \<and> (bibtex_cache w doi = None \<longrightarrow>
        requests (snd (fetch_bibtex ev doi w))
          = requests w @ [''http://api.crossref.org/works/'' @ doi @ ''/transform/application/x-bibtex''])"
proof (intro conjI impI)
  assume "cache doi = Some v"
  then show "decorated ev side fn doi cache w = (Inr v, cache, w)"
    by (simp add: decorated_def)
next
  assume "cache doi = None \<and> fn doi w = (Inr res, wb) \<and> DRYRUN wb"
  then show "decorated ev side fn doi cache w = (Inr res, cache(doi \<mapsto> res), wb)"
    by (simp add: decorated_def)
next
  assume a: "cache doi = None \<and> fn doi w = (Inr res, wb) \<and> \<not> DRYRUN wb
        \<and> write_file side (json_dumps ev (cache(doi \<mapsto> res))) (fs wb) = Inr fb"
  then show "decorated ev side fn doi cache w = (Inr res, cache(doi \<mapsto> res), wb\<lparr>fs := fb\<rparr>)"
    by (simp add: decorated_def)
  from a show "fs_files fb side = Some (json_dumps ev (cache(doi \<mapsto> res)))"
    by (auto simp: write_file_def split: if_splits)
next
  assume "cache doi = None \<and> fn doi w = (Inl err, wb)"
  then show "decorated ev side fn doi cache w = (Inl err, cache, wb)"
    by (simp add: decorated_def)
next
  assume "bibtex_cache w doi = Some v"
  then show "fetch_bibtex ev doi w = (Inr v, w)"
    by (simp add: fetch_bibtex_def decorated_def)
next
  assume "bibtex_cache w doi = None"
  then show "requests (snd (fetch_bibtex ev doi w))
          = requests w @ [''http://api.crossref.org/works/'' @ doi @ ''/transform/application/x-bibtex'']"
    by (simp add: fetch_bibtex_def decorated_def fetch_bibtex_body_def Let_def
        split: sum.splits prod.splits)
qed

lemma ex_cache_dirname: "dirname ''.crossref-bibtex.json'' = []"
  by code_simp

lemma ex_body:
  "fetch_bibtex_body (ex_env [] []) ''10.1234/abc'' ex_world
     = (Inr ''@article{Smith2020, year = {2020}}'', ex_world\<lparr>requests := [ex_url]\<rparr>)"
  by (simp add: fetch_bibtex_body_def ex_env_def ex_world_def ex_url_def)

lemma ex_write:
  "write_file ''.crossref-bibtex.json''
      (json_dumps (ex_env [] []) (Map.empty(''10.1234/abc'' \<mapsto> ''@article{Smith2020, year = {2020}}'')))
      (fs (ex_world\<lparr>requests := [ex_url]\<rparr>))
     = Inr (ex_fsys\<lparr>fs_files := (fs_files ex_fsys)(''.crossref-bibtex.json'' \<mapsto> ''{...}'')\<rparr>)"
  by (simp add: write_file_def ex_cache_dirname ex_env_def ex_world_def ex_fsys_def)

theorem decorated_cache_witness:
  "[''10.1234/abc'' \<mapsto> ''@cached''] ''10.1234/abc'' = Some ''@cached''
   \<and> decorated (ex_env [] []) ''.crossref-bibtex.json'' ex_offline ''10.1234/abc''
        [''10.1234/abc'' \<mapsto> ''@cached''] ex_world
       = (Inr ''@cached'', [''10.1234/abc'' \<mapsto> ''@cached''], ex_world)
   \<and> Map.empty ''10.1234/abc'' = (None :: string option)
   \<and> ex_offline ''10.1234/abc'' ex_world = (Inl (External ''offline''), ex_world)
   \<and> decorated (ex_env [] []) ''.crossref-bibtex.json'' ex_offline ''10.1234/abc'' Map.empty ex_world
       = (Inl (External ''offline''), Map.empty, ex_world)
   \<and> fetch_bibtex_body (ex_env [] []) ''10.1234/abc'' ex_world
       = (Inr ''@article{Smith2020, year = {2020}}'', ex_world\<lparr>requests := [ex_url]\<rparr>)
   \<and> \<not> DRYRUN (ex_world\<lparr>requests := [ex_url]\<rparr>)
   \<and> decorated (ex_env [] []) ''.crossref-bibtex.json'' (fetch_bibtex_body (ex_env [] []))
        ''10.1234/abc'' Map.empty ex_world
       = (Inr ''@article{Smith2020, year = {2020}}'',
          Map.empty(''10.1234/abc'' \<mapsto> ''@article{Smith2020, year = {2020}}''),
          ex_world\<lparr>requests := [ex_url],
                   fs := ex_fsys\<lparr>fs_files := (fs_files ex_fsys)(''.crossref-bibtex.json'' \<mapsto> ''{...}'')\<rparr>\<rparr>)"
proof -
  have hit: "[''10.1234/abc'' \<mapsto> ''@cached''] ''10.1234/abc'' = Some ''@cached''" by simp
  have miss: "Map.empty ''10.1234/abc'' = (None :: string option)" by simp
  have off: "ex_offline ''10.1234/abc'' ex_world = (Inl (External ''offline''), ex_world)"
    by (simp add: ex_offline_def)
  have wet: "\<not> DRYRUN (ex_world\<lparr>requests := [ex_url]\<rparr>)" by (simp add: ex_world_def)
  note t1 = decorated_cache[where cache="[''10.1234/abc'' \<mapsto> ''@cached'']"
      and doi="''10.1234/abc''" and v="''@cached''" and ev="ex_env [] []"
      and side="''.crossref-bibtex.json''" and fn=ex_offline and w=ex_world,
      THEN conjunct1, rule_format, OF hit]
  note t2 = decorated_cache[where cache=Map.empty and doi="''10.1234/abc''"
      and ev="ex_env [] []" and side="''.crossref-bibtex.json''" and fn=ex_offline
      and w=ex_world and wb=ex_world and err="External ''offline''",
      THEN conjunct2, THEN conjunct2, THEN conjunct2, THEN conjunct1,
      rule_format, OF conjI[OF miss off]]
  note t3 = decorated_cache[where cache=Map.empty and doi="''10.1234/abc''"
      and ev="ex_env [] []" and side="''.crossref-bibtex.json''"
      and fn="fetch_bibtex_body (ex_env [] [])" and w=ex_world
      and wb="ex_world\<lparr>requests := [ex_url]\<rparr>"
      and res="''@article{Smith2020, year = {2020}}''"
      and fb="ex_fsys\<lparr>fs_files := (fs_files ex_fsys)(''.crossref-bibtex.json'' \<mapsto> ''{...}'')\<rparr>",
      THEN conjunct2, THEN conjunct2, THEN conjunct1, rule_format,
      OF conjI[OF miss conjI[OF ex_body conjI[OF wet ex_write]]], THEN conjunct1]
  show ?thesis
    by (intro conjI hit miss off wet ex_body t1 t2 t3)
qed

subsection \<open>Renaming the files of a record that has several\<close>

text \<open>Splitting and joining, and the ends of a stripped string.\<close>

lemma split_nonempty: "split sep s \<noteq> []"
  by (induction s) (auto split: list.splits)

lemma split_no_sep: "p \<in> set (split sep s) \<Longrightarrow> sep \<notin> set p"
  by (induction s arbitrary: p) (auto split: list.splits if_splits)

lemma join_split: "join [sep] (split sep s) = s"
proof (induction s)
  case Nil then show ?case by simp
next
  case (Cons c s)
  then show ?case
    by (cases "split sep s"; cases "tl (split sep s)") (auto simp: split_nonempty)
qed

lemma join_chars: "p \<in> set xs \<Longrightarrow> set p \<subseteq> set (join sep xs)"
  by (induction sep xs rule: join.induct) auto

lemma split_chars: "p \<in> set (split sep s) \<Longrightarrow> set p \<subseteq> set s"
  using join_chars[of p "split sep s" "[sep]"] by (simp add: join_split)

lemma prefix_hd_join: "xs \<noteq> [] \<Longrightarrow> prefix (hd xs) (join sep xs)"
  by (induction sep xs rule: join.induct) auto

lemma suffix_last_join: "xs \<noteq> [] \<Longrightarrow> suffix (last xs) (join sep xs)"
  by (induction sep xs rule: join.induct) (auto simp: suffix_append)

lemma split_single: "sep \<notin> set x \<Longrightarrow> split sep x = [x]"
  by (induction x) auto

lemma split_append: "sep \<notin> set x \<Longrightarrow> split sep (x @ sep # r) = x # split sep r"
  by (induction x) (auto simp: split_nonempty split: list.splits)

lemma split_join:
  "xs \<noteq> [] \<Longrightarrow> \<forall>x \<in> set xs. sep \<notin> set x \<Longrightarrow> split sep (join [sep] xs) = xs"
  by (induction "[sep]" xs rule: join.induct) (auto simp: split_single split_append)

lemma hd_split_prefix: "prefix (hd (split sep s)) s"
  using prefix_hd_join[of "split sep s" "[sep]"] by (simp add: join_split split_nonempty)

lemma last_split_suffix: "suffix (last (split sep s)) s"
  using suffix_last_join[of "split sep s" "[sep]"] by (simp add: join_split split_nonempty)

lemma hd_join: "xs \<noteq> [] \<Longrightarrow> hd xs \<noteq> [] \<Longrightarrow> hd (join sep xs) = hd (hd xs)"
  using prefix_hd_join[of xs sep] by (auto simp: prefix_def)

lemma last_join: "xs \<noteq> [] \<Longrightarrow> last xs \<noteq> [] \<Longrightarrow> last (join sep xs) = last (last xs)"
  using suffix_last_join[of xs sep] by (auto simp: suffix_def)

lemma join_nonempty: "xs \<noteq> [] \<Longrightarrow> hd xs \<noteq> [] \<Longrightarrow> join sep xs \<noteq> []"
  using prefix_hd_join[of xs sep] by (auto simp: prefix_def)

lemma strip_chars_ends:
  assumes "strip_chars cs s \<noteq> []"
  shows "hd (strip_chars cs s) \<notin> set cs \<and> last (strip_chars cs s) \<notin> set cs"
proof -
  let ?P = "\<lambda>c. c \<in> set cs"
  let ?u = "dropWhile ?P s"
  let ?v = "dropWhile ?P (rev ?u)"
  have t: "strip_chars cs s = rev ?v" by (simp add: strip_chars_def)
  then have v: "?v \<noteq> []" using assms by simp
  then have "\<not> ?P (hd ?v)" by (rule hd_dropWhile)
  then have l: "last (strip_chars cs s) \<notin> set cs" using t v by (simp add: last_rev)
  have u: "?u \<noteq> []"
  proof
    assume "?u = []"
    then have "?v = []" by (metis dropWhile.simps(1) rev.simps(1))
    with v show False by simp
  qed
  then have hu: "\<not> ?P (hd ?u)" by (rule hd_dropWhile)
  have "suffix ?v (rev ?u)" by (rule suffix_dropWhile)
  then have "prefix (rev ?v) ?u" by (metis rev_rev_ident suffix_to_prefix)
  then have "hd (rev ?v) = hd ?u" using v by (metis hd_append2 prefix_def rev_is_Nil_conv)
  then show ?thesis using hu l t by simp
qed

lemma strip_chars_id:
  assumes "s \<noteq> []" "hd s \<notin> set cs" "last s \<notin> set cs"
  shows "strip_chars cs s = s"
proof -
  have "dropWhile (\<lambda>c. c \<in> set cs) s = s" using assms by (cases s) auto
  moreover have "dropWhile (\<lambda>c. c \<in> set cs) (rev s) = rev s"
    using assms by (cases "rev s") (auto simp: hd_rev)
  ultimately show ?thesis by (simp add: strip_chars_def)
qed

lemma unpack2_Inr: "unpack2 item = Inr (f, t) \<longleftrightarrow> item = [f, t]"
  by (auto simp: unpack2_def split: list.splits)

lemma entryfile_pair:
  assumes "entryfile tok = [f, t]" "CHR '';'' \<notin> set tok"
  shows "CHR '';'' \<notin> set f \<and> CHR '';'' \<notin> set t
       \<and> entryfile (f @ '':'' @ t) = [f, t]
       \<and> prefix f tok \<and> (t = ''pdf'' \<or> suffix t tok)"
proof (cases "CHR '':'' \<in> set tok")
  case True
  then have sp: "split CHR '':'' tok = [f, t]" using assms(1) by (simp add: entryfile_def)
  then have "f \<in> set (split CHR '':'' tok)" "t \<in> set (split CHR '':'' tok)" by simp_all
  then have nc: "CHR '':'' \<notin> set f" "CHR '':'' \<notin> set t" and sub: "set f \<subseteq> set tok" "set t \<subseteq> set tok"
    using split_no_sep split_chars by metis+
  have "split CHR '':'' (f @ CHR '':'' # t) = [f, t]"
    using nc by (simp add: split_append split_single)
  then have "entryfile (f @ '':'' @ t) = [f, t]" by (simp add: entryfile_def)
  moreover have "prefix f tok" using hd_split_prefix[of "CHR '':''" tok] sp by simp
  moreover have "suffix t tok" using last_split_suffix[of "CHR '':''" tok] sp by simp
  ultimately show ?thesis using sub assms(2) by auto
next
  case False
  then have ft: "f = tok" "t = ''pdf''" using assms(1) by (simp_all add: entryfile_def)
  have "split CHR '':'' (f @ CHR '':'' # ''pdf'') = [f, ''pdf'']"
    using False ft by (simp add: split_append split_single)
  then have "entryfile (f @ '':'' @ t) = [f, t]" using ft by (simp add: entryfile_def)
  then show ?thesis using ft assms(2) by auto
qed

lemma hd_prefix: "prefix a b \<Longrightarrow> a \<noteq> [] \<Longrightarrow> hd a = hd b"
  by (auto simp: prefix_def)

lemma last_suffix: "suffix a b \<Longrightarrow> a \<noteq> [] \<Longrightarrow> last a = last b"
  by (auto simp: suffix_def)

text \<open>
  Writing the associations of a record back, each as \<^verbatim>\<open>path:type\<close>, gives a files field
  that reads back as the same associations.
\<close>

lemma getentryfiles_rewrite:
  assumes ok: "mapM unpack2 (getentryfiles e) = Inr pairs" and ne: "pairs \<noteq> []"
  shows "getentryfiles (e(''file'' \<mapsto> join '';'' (map (\<lambda>(f, t). f @ '':'' @ t) pairs)))
           = getentryfiles e"
proof -
  define s0 where "s0 = strip (case e ''file'' of None \<Rightarrow> [] | Some v \<Rightarrow> v)"
  define toks where "toks = split CHR '';'' s0"
  define enc where "enc = (\<lambda>(f, t). f @ '':'' @ (t::string))"
  define s1 where "s1 = join '';'' (map enc pairs)"
  have g: "getentryfiles e = (if s0 = [] then [] else map entryfile toks)"
    by (simp add: getentryfiles_def s0_def toks_def)
  have m: "map unpack2 (getentryfiles e) = map Inr pairs" using ok by (simp add: mapM_iff)
  then have "getentryfiles e \<noteq> []" using ne by auto
  then have s0: "s0 \<noteq> []" and fl: "getentryfiles e = map entryfile toks" using g by (auto split: if_splits)
  have len: "length pairs = length toks" using m fl by (metis length_map)
  have tok: "\<And>i. i < length toks \<Longrightarrow> entryfile (toks ! i) = [fst (pairs ! i), snd (pairs ! i)]
                 \<and> CHR '';'' \<notin> set (toks ! i)"
  proof -
    fix i assume i: "i < length toks"
    have "unpack2 (entryfile (toks ! i)) = Inr (pairs ! i)"
      using m fl i len by (metis length_map nth_map)
    then have "entryfile (toks ! i) = [fst (pairs ! i), snd (pairs ! i)]"
      using unpack2_Inr[of _ "fst (pairs ! i)" "snd (pairs ! i)"] by simp
    moreover have "CHR '';'' \<notin> set (toks ! i)"
      using split_no_sep[of "toks ! i" "CHR '';''" s0] i by (simp add: toks_def)
    ultimately show "entryfile (toks ! i) = [fst (pairs ! i), snd (pairs ! i)]
                 \<and> CHR '';'' \<notin> set (toks ! i)" by simp
  qed
  have props: "CHR '';'' \<notin> set (fst (pairs ! i)) \<and> CHR '';'' \<notin> set (snd (pairs ! i))
       \<and> entryfile (fst (pairs ! i) @ '':'' @ snd (pairs ! i)) = [fst (pairs ! i), snd (pairs ! i)]
       \<and> prefix (fst (pairs ! i)) (toks ! i)
       \<and> (snd (pairs ! i) = ''pdf'' \<or> suffix (snd (pairs ! i)) (toks ! i))"
    if "i < length toks" for i
    using entryfile_pair[OF tok[OF that, THEN conjunct1] tok[OF that, THEN conjunct2]] .
  have enc_i: "\<And>i. i < length pairs \<Longrightarrow> enc (pairs ! i) = fst (pairs ! i) @ '':'' @ snd (pairs ! i)"
    by (simp add: enc_def case_prod_beta)
  have a: "map entryfile (map enc pairs) = map entryfile toks"
  proof (rule nth_equalityI)
    show "length (map entryfile (map enc pairs)) = length (map entryfile toks)" using len by simp
  next
    fix i assume "i < length (map entryfile (map enc pairs))"
    then have i: "i < length toks" using len by simp
    then show "map entryfile (map enc pairs) ! i = map entryfile toks ! i"
      using props[OF i] tok[OF i] len enc_i[of i] by simp
  qed
  have "\<forall>x \<in> set (map enc pairs). CHR '';'' \<notin> set x"
  proof
    fix x assume "x \<in> set (map enc pairs)"
    then obtain i where i: "i < length pairs" "x = enc (pairs ! i)"
      by (auto simp: in_set_conv_nth)
    then show "CHR '';'' \<notin> set x" using props[of i] len enc_i[of i] by simp
  qed
  then have b: "split CHR '';'' s1 = map enc pairs"
    using split_join[of "map enc pairs" "CHR '';''"] ne by (simp add: s1_def)
  have encne: "\<And>p. enc p \<noteq> []" by (simp add: enc_def case_prod_beta)
  have s1ne: "s1 \<noteq> []"
    using join_nonempty[of "map enc pairs" "'';''"] ne encne by (simp add: s1_def hd_map)
  have ends: "hd s0 \<notin> set whitespace \<and> last s0 \<notin> set whitespace"
    using strip_chars_ends[of whitespace] s0 by (simp add: s0_def strip_def)
  have zero: "0 < length toks" using len ne by (cases pairs) auto
  then have lst: "length toks - 1 < length toks" by simp
  have "hd s1 = hd (enc (pairs ! 0))"
    using hd_join[of "map enc pairs" "'';''"] ne encne by (simp add: s1_def hd_map hd_conv_nth)
  also have "\<dots> = hd (fst (pairs ! 0) @ '':'' @ snd (pairs ! 0))" using enc_i[of 0] zero len by simp
  finally have h1: "hd s1 = hd (fst (pairs ! 0) @ '':'' @ snd (pairs ! 0))" .
  have h: "hd s1 \<notin> set whitespace"
  proof (cases "fst (pairs ! 0) = []")
    case True then show ?thesis using h1 by (simp add: whitespace_def)
  next
    case False
    have "prefix (fst (pairs ! 0)) (toks ! 0)" using props[OF zero] by simp
    moreover have "prefix (toks ! 0) s0"
      using hd_split_prefix[of "CHR '';''" s0] zero by (simp add: toks_def hd_conv_nth)
    ultimately have "prefix (fst (pairs ! 0)) s0" by (rule prefix_order.trans)
    then have "hd (fst (pairs ! 0)) = hd s0" using False by (rule hd_prefix)
    then show ?thesis using h1 False ends by simp
  qed
  let ?n = "length toks - 1"
  have lp: "last (map enc pairs) = enc (pairs ! ?n)"
    using ne len lst by (simp add: last_conv_nth)
  have "last s1 = last (last (map enc pairs))"
    unfolding s1_def by (rule last_join) (use ne encne lp in auto)
  then have "last s1 = last (enc (pairs ! ?n))" using lp by simp
  also have "\<dots> = last (fst (pairs ! ?n) @ '':'' @ snd (pairs ! ?n))"
    using enc_i[of ?n] lst len by simp
  finally have l1: "last s1 = last (fst (pairs ! ?n) @ '':'' @ snd (pairs ! ?n))" .
  have l: "last s1 \<notin> set whitespace"
  proof (cases "snd (pairs ! ?n) = []")
    case True then show ?thesis using l1 by (simp add: whitespace_def)
  next
    case False
    consider "snd (pairs ! ?n) = ''pdf''" | "suffix (snd (pairs ! ?n)) (toks ! ?n)"
      using props[OF lst] by blast
    then show ?thesis
    proof cases
      case 1 then show ?thesis using l1 by (simp add: whitespace_def)
    next
      case 2
      moreover have "suffix (toks ! ?n) s0"
        using last_split_suffix[of "CHR '';''" s0] zero by (simp add: toks_def last_conv_nth)
      ultimately have "suffix (snd (pairs ! ?n)) s0" by (rule suffix_order.trans)
      then have "last (snd (pairs ! ?n)) = last s0" using False by (rule last_suffix)
      then show ?thesis using l1 False ends by simp
    qed
  qed
  have "strip s1 = s1" using strip_chars_id[OF s1ne h l] by (simp add: strip_def)
  then have "getentryfiles (e(''file'' \<mapsto> s1)) = map entryfile (split CHR '';'' s1)"
    using s1ne by (simp add: getentryfiles_def)
  then show ?thesis using a b fl by (simp add: s1_def enc_def)
qed

lemma move_all_efiles:
  "move_all newdir copy items w = (Inr efiles, wb) \<Longrightarrow>
   \<exists>pairs. mapM unpack2 items = Inr pairs \<and> efiles = map (\<lambda>(file, ftype). file @ '':'' @ ftype) pairs"
proof (induction items arbitrary: w efiles wb)
  case Nil then show ?case by simp
next
  case (Cons item items)
  then show ?case
    by (auto simp: Let_def split: sum.splits prod.splits if_splits)
qed

lemma ex_smith2_files:
  "getentryfiles ex_smith2 = [[''/tmp/x.pdf'', ''pdf''], [''/tmp/s.zip'', ''zip'']]"
  by (simp add: ex_smith2_def getentryfiles_def) code_simp

lemma smith2_paths:
  "path_join ''/lib'' ''2020'' = ''/lib/2020''"
  "path_join ''/lib/2020'' ''smith2020'' = ''/lib/2020/smith2020''"
  "path_join ''/lib/2020/smith2020'' (basename ''/tmp/x.pdf'') = ''/lib/2020/smith2020/x.pdf''"
  "path_join ''/lib/2020/smith2020'' (basename ''/tmp/s.zip'') = ''/lib/2020/smith2020/s.zip''"
  "dirname ''/lib/2020/smith2020/x.pdf'' = ''/lib/2020/smith2020''"
  "dirname ''/lib/2020/smith2020/s.zip'' = ''/lib/2020/smith2020''"
  "ancestors ''/lib/2020/smith2020'' = [''/lib/2020'', ''/lib'', ''/'']"
  "is_utf8 ''/tmp/x.pdf''" "is_utf8 ''/tmp/s.zip''"
  "is_ascii ''/lib/2020/smith2020/x.pdf''" "is_ascii ''/lib/2020/smith2020/s.zip''"
  by code_simp+

lemma ex_smith2_fields:
  "lookup ex_smith2 ''year'' = Inr ''2020''" "lookup ex_smith2 ''ID'' = Inr ''smith2020''"
  by (simp_all add: lookup_def ex_smith2_def)

lemma ex_move_all:
  "\<exists>wa. move_all ''/lib/2020/smith2020'' False
            [[''/tmp/x.pdf'', ''pdf''], [''/tmp/s.zip'', ''zip'']] ex_tmp_world
           = (Inr [''/tmp/x.pdf:pdf'', ''/tmp/s.zip:zip''], wa)
        \<and> fs_files (fs wa) ''/lib/2020/smith2020/x.pdf'' = Some ''%PDF''
        \<and> fs_files (fs wa) ''/lib/2020/smith2020/s.zip'' = Some ''PK''
        \<and> fs_files (fs wa) ''/tmp/x.pdf'' = None
        \<and> fs_files (fs wa) ''/tmp/s.zip'' = None"
  by (simp add: unpack2_def smith2_paths move_def Let_def path_exists_def makedirs_def
      shutil_move_def write_file_def ex_tmp_world_def)

lemma ex_rename_several:
  "\<exists>wa. rename_entry_files ex_lib ex_smith2 False ex_tmp_world
           = (Inr (ex_smith2(''file'' \<mapsto> ''/tmp/x.pdf:pdf;/tmp/s.zip:zip'')), wa)
        \<and> fs_files (fs wa) ''/lib/2020/smith2020/x.pdf'' = Some ''%PDF''
        \<and> fs_files (fs wa) ''/lib/2020/smith2020/s.zip'' = Some ''PK''
        \<and> fs_files (fs wa) ''/tmp/x.pdf'' = None
        \<and> fs_files (fs wa) ''/tmp/s.zip'' = None"
proof -
  from ex_move_all obtain wa where
    m: "move_all ''/lib/2020/smith2020'' False
            [[''/tmp/x.pdf'', ''pdf''], [''/tmp/s.zip'', ''zip'']] ex_tmp_world
           = (Inr [''/tmp/x.pdf:pdf'', ''/tmp/s.zip:zip''], wa)"
    and f: "fs_files (fs wa) ''/lib/2020/smith2020/x.pdf'' = Some ''%PDF''"
       "fs_files (fs wa) ''/lib/2020/smith2020/s.zip'' = Some ''PK''"
       "fs_files (fs wa) ''/tmp/x.pdf'' = None"
       "fs_files (fs wa) ''/tmp/s.zip'' = None"
    by blast
  have "filesdir ex_lib = ''/lib''" by (simp add: ex_lib_def)
  then have "rename_entry_files ex_lib ex_smith2 False ex_tmp_world
           = (Inr (ex_smith2(''file'' \<mapsto> ''/tmp/x.pdf:pdf;/tmp/s.zip:zip'')), wa)"
    using m by (simp add: rename_entry_files_def ex_smith2_files ex_smith2_fields smith2_paths
        Let_def del: move_all.simps)
  then show ?thesis using f by blast
qed

text \<open>What a successful \<^verbatim>\<open>move\<close> does, and what it leaves alone.\<close>

lemma move_success:
  assumes "move f1 f2 copy w = (Inr (), wb)" "\<not> DRYRUN w" "f2 \<notin> fs_dirs (fs wb)" "f1 \<noteq> f2"
  shows "fs_files (fs w) f1 \<noteq> None \<and> fs_files (fs wb) f2 = fs_files (fs w) f1
       \<and> fs_files (fs wb) f1 = (if copy then fs_files (fs w) f1 else None)
       \<and> (\<forall>p. p \<noteq> f1 \<and> p \<noteq> f2 \<longrightarrow> fs_files (fs wb) p = fs_files (fs w) p)"
  using assms
  by (auto simp: move_def Let_def makedirs_def shutil_move_def shutil_copy_def write_file_def
      split: if_splits sum.splits option.splits)

lemma move_mono:
  assumes "move f1 f2 copy w = (r, wb)"
  shows "fs_dirs (fs w) \<subseteq> fs_dirs (fs wb) \<and> DRYRUN wb = DRYRUN w"
  using assms
  by (auto simp: move_def Let_def makedirs_def shutil_move_def shutil_copy_def write_file_def
      split: if_splits sum.splits option.splits)

lemma move_all_mono:
  "move_all newdir copy items w = (r, wa) \<Longrightarrow>
   fs_dirs (fs w) \<subseteq> fs_dirs (fs wa) \<and> DRYRUN wa = DRYRUN w"
proof (induction items arbitrary: w r wa)
  case Nil then show ?case by simp
next
  case (Cons item items)
  show ?case
  proof (cases "unpack2 item")
    case (Inl err) then show ?thesis using Cons.prems by simp
  next
    case (Inr ft)
    obtain src ftype where ft: "ft = (src, ftype)" by (cases ft)
    let ?new = "path_join newdir (basename src)"
    obtain r1 w1 where m1: "(if src \<noteq> ?new then move src ?new copy w else (Inr (), w)) = (r1, w1)"
      by (cases "if src \<noteq> ?new then move src ?new copy w else (Inr (), w)")
    have mono1: "fs_dirs (fs w) \<subseteq> fs_dirs (fs w1) \<and> DRYRUN w1 = DRYRUN w"
      using m1 move_mono[of src ?new copy w r1 w1] by (auto split: if_splits)
    show ?thesis
    proof (cases r1)
      case (Inl err) then show ?thesis using Cons.prems Inr ft m1 mono1 by (simp add: Let_def)
    next
      case r1: (Inr u)
      obtain r2 w2 where m2: "move_all newdir copy items w1 = (r2, w2)"
        by (cases "move_all newdir copy items w1")
      then have "wa = w2" using Cons.prems Inr ft m1 r1
        by (auto simp: Let_def split: sum.splits)
      then show ?thesis using Cons.IH[OF m2] mono1 by auto
    qed
  qed
qed

lemma move_frame:
  assumes "move f1 f2 copy w = (Inr (), wb)" "f2 \<notin> fs_dirs (fs wb)" "p \<noteq> f1" "p \<noteq> f2"
  shows "fs_files (fs wb) p = fs_files (fs w) p"
  using assms
  by (auto simp: move_def Let_def makedirs_def shutil_move_def shutil_copy_def write_file_def
      split: if_splits sum.splits option.splits)

lemma move_all_step:
  assumes "move_all newdir copy (item # items) w = (Inr efiles, wa)"
  obtains src ftype w1 rest where
    "item = [src, ftype]"
    "(if src \<noteq> path_join newdir (basename src)
      then move src (path_join newdir (basename src)) copy w else (Inr (), w)) = (Inr (), w1)"
    "move_all newdir copy items w1 = (Inr rest, wa)"
proof -
  obtain src ftype where u: "unpack2 item = Inr (src, ftype)"
    using assms by (cases "unpack2 item") auto
  then have i: "item = [src, ftype]" by (simp add: unpack2_Inr)
  let ?new = "path_join newdir (basename src)"
  obtain r1 w1 where m1: "(if src \<noteq> ?new then move src ?new copy w else (Inr (), w)) = (r1, w1)"
    by (cases "if src \<noteq> ?new then move src ?new copy w else (Inr (), w)")
  then have r1: "r1 = Inr ()" using assms u by (cases r1) (auto simp: Let_def)
  obtain r2 w2 where m2: "move_all newdir copy items w1 = (r2, w2)"
    by (cases "move_all newdir copy items w1")
  then obtain rest where "r2 = Inr rest" "w2 = wa"
    using assms u m1 r1 by (cases r2) (auto simp: Let_def)
  then show ?thesis using that i m1 r1 m2 by simp
qed

lemma move_all_frame:
  assumes "move_all newdir copy items w = (Inr efiles, wa)"
      and "\<forall>item \<in> set items. path_join newdir (basename (hd item)) \<notin> fs_dirs (fs wa)"
      and "\<forall>item \<in> set items. p \<noteq> hd item \<and> p \<noteq> path_join newdir (basename (hd item))"
  shows "fs_files (fs wa) p = fs_files (fs w) p"
  using assms
proof (induction items arbitrary: w efiles)
  case Nil then show ?case by simp
next
  case (Cons item items)
  from move_all_step[OF Cons.prems(1)] obtain src ftype w1 rest where
    i: "item = [src, ftype]"
    and m1: "(if src \<noteq> path_join newdir (basename src)
      then move src (path_join newdir (basename src)) copy w else (Inr (), w)) = (Inr (), w1)"
    and m2: "move_all newdir copy items w1 = (Inr rest, wa)" by blast
  let ?new = "path_join newdir (basename src)"
  have "fs_dirs (fs w1) \<subseteq> fs_dirs (fs wa)" using move_all_mono[OF m2] by simp
  then have nd: "?new \<notin> fs_dirs (fs w1)" using Cons.prems(2) i by auto
  have "fs_files (fs w1) p = fs_files (fs w) p"
    using m1 move_frame[of src ?new copy w w1 p] nd Cons.prems(3) i by (auto split: if_splits)
  moreover have "fs_files (fs wa) p = fs_files (fs w1) p"
    using Cons.IH[OF m2] Cons.prems(2,3) by simp
  ultimately show ?case by simp
qed

lemma move_all_places:
  assumes "move_all newdir copy items w = (Inr efiles, wa)" "\<not> DRYRUN w"
      and "\<forall>item \<in> set items. path_join newdir (basename (hd item)) \<notin> fs_dirs (fs wa)"
      and "distinct (map (\<lambda>item. path_join newdir (basename (hd item))) items)"
      and "\<forall>a \<in> set items. \<forall>b \<in> set items. hd a \<noteq> path_join newdir (basename (hd b))"
  shows "\<forall>item \<in> set items.
           fs_files (fs w) (hd item) \<noteq> None
         \<and> fs_files (fs wa) (path_join newdir (basename (hd item))) = fs_files (fs w) (hd item)
         \<and> (\<not> copy \<longrightarrow> fs_files (fs wa) (hd item) = None)"
  using assms
proof (induction items arbitrary: w efiles)
  case Nil then show ?case by simp
next
  case (Cons item items)
  from move_all_step[OF Cons.prems(1)] obtain src ftype w1 rest where
    i: "item = [src, ftype]"
    and m1: "(if src \<noteq> path_join newdir (basename src)
      then move src (path_join newdir (basename src)) copy w else (Inr (), w)) = (Inr (), w1)"
    and m2: "move_all newdir copy items w1 = (Inr rest, wa)" by blast
  let ?tgt = "\<lambda>item. path_join newdir (basename (hd item))"
  let ?new = "path_join newdir (basename src)"
  have sn: "src \<noteq> ?new" using Cons.prems(5) i by auto
  then have mv: "move src ?new copy w = (Inr (), w1)" using m1 by simp
  have "fs_dirs (fs w1) \<subseteq> fs_dirs (fs wa)" using move_all_mono[OF m2] by simp
  then have nd: "?new \<notin> fs_dirs (fs w1)" using Cons.prems(3) i by auto
  note ms = move_success[OF mv Cons.prems(2) nd sn]
  have dry1: "\<not> DRYRUN w1" using move_mono[OF mv] Cons.prems(2) by simp
  have others: "\<forall>b \<in> set items. hd b \<noteq> src \<and> hd b \<noteq> ?new \<and> ?tgt b \<noteq> ?new \<and> ?tgt b \<noteq> src"
  proof
    fix b assume b: "b \<in> set items"
    have "?new \<notin> ?tgt ` set items" using Cons.prems(4) i by simp
    then have "?tgt b \<noteq> ?new" using b by (metis imageI)
    then have "hd b \<noteq> src" by auto
    moreover have "hd b \<noteq> ?new" "?tgt b \<noteq> src" using Cons.prems(5) b i by auto
    ultimately show "hd b \<noteq> src \<and> hd b \<noteq> ?new \<and> ?tgt b \<noteq> ?new \<and> ?tgt b \<noteq> src"
      using \<open>?tgt b \<noteq> ?new\<close> by simp
  qed
  have tg: "\<forall>item \<in> set items. ?tgt item \<notin> fs_dirs (fs wa)" using Cons.prems(3) by simp
  have f_new: "fs_files (fs wa) ?new = fs_files (fs w1) ?new"
    by (rule move_all_frame[OF m2 tg]) (use others in auto)
  have f_src: "fs_files (fs wa) src = fs_files (fs w1) src"
    by (rule move_all_frame[OF m2 tg]) (use others in auto)
  have head: "fs_files (fs w) (hd item) \<noteq> None
         \<and> fs_files (fs wa) (?tgt item) = fs_files (fs w) (hd item)
         \<and> (\<not> copy \<longrightarrow> fs_files (fs wa) (hd item) = None)"
    using ms f_new f_src i by simp
  have ih: "\<forall>item \<in> set items.
           fs_files (fs w1) (hd item) \<noteq> None
         \<and> fs_files (fs wa) (?tgt item) = fs_files (fs w1) (hd item)
         \<and> (\<not> copy \<longrightarrow> fs_files (fs wa) (hd item) = None)"
    using Cons.IH[OF m2 dry1 tg] Cons.prems(4,5) by simp
  have tail: "\<forall>b \<in> set items. fs_files (fs w1) (hd b) = fs_files (fs w) (hd b)"
    using ms others by simp
  show ?case using head ih tail by simp
qed

lemma items_of_pairs:
  assumes "mapM unpack2 items = Inr pairs"
  shows "items = map (\<lambda>p. [fst p, snd p]) pairs"
proof (rule nth_equalityI)
  have mm: "map unpack2 items = map Inr pairs" using assms by (simp add: mapM_iff)
  then show len: "length items = length (map (\<lambda>p. [fst p, snd p]) pairs)"
    by (metis length_map)
  fix i assume i: "i < length items"
  then have "unpack2 (items ! i) = Inr (pairs ! i)" using mm len by (metis length_map nth_map)
  then have "items ! i = [fst (pairs ! i), snd (pairs ! i)]"
    using unpack2_Inr[of _ "fst (pairs ! i)" "snd (pairs ! i)"] by simp
  then show "items ! i = map (\<lambda>p. [fst p, snd p]) pairs ! i" using i len by simp
qed

text \<open>
  C6. Let a record have two associated files or more, and let \<^verbatim>\<open>rename_entry_files\<close>
  succeed on it. Then the files field is rewritten from the old path and the type of
  each association, so that the record has the same associations after the call as
  before: every stored path still names the old place. The files themselves have been
  moved to the directory \<^verbatim>\<open>filesdir/year/ID\<close> under their base names: outside a dry run,
  when these targets are distinct, none of them is a directory and none is one of the
  old paths, each target holds what the old path held, and the old path holds nothing
  any more unless the files were copied.
\<close>

theorem rename_several_files:
  assumes "2 \<le> length (getentryfiles e)"
      and "rename_entry_files my e copy w = (Inr ea, wa)"
  shows "\<exists>pairs year ident newdir.
            mapM unpack2 (getentryfiles e) = Inr pairs
          \<and> e ''year'' = Some year \<and> e ''ID'' = Some ident
          \<and> newdir = path_join (path_join (filesdir my) year) ident
          \<and> ea = e(''file'' \<mapsto> join '';'' (map (\<lambda>p. fst p @ '':'' @ snd p) pairs))
          \<and> getentryfiles ea = getentryfiles e
          \<and> (\<not> DRYRUN w
               \<and> (\<forall>p \<in> set pairs. path_join newdir (basename (fst p)) \<notin> fs_dirs (fs wa))
               \<and> distinct (map (\<lambda>p. path_join newdir (basename (fst p))) pairs)
               \<and> (\<forall>p \<in> set pairs. \<forall>q \<in> set pairs. fst p \<noteq> path_join newdir (basename (fst q)))
             \<longrightarrow> (\<forall>p \<in> set pairs.
                     fs_files (fs w) (fst p) \<noteq> None
                   \<and> fs_files (fs wa) (path_join newdir (basename (fst p))) = fs_files (fs w) (fst p)
                   \<and> (\<not> copy \<longrightarrow> fs_files (fs wa) (fst p) = None)))"
proof -
  have two: "getentryfiles e \<noteq> []" "length (getentryfiles e) \<noteq> 1" using assms(1) by auto
  obtain year where y: "e ''year'' = Some year"
    using assms(2) by (cases "e ''year''") (simp_all add: rename_entry_files_def lookup_def)
  obtain ident where d: "e ''ID'' = Some ident"
    using assms(2) y two
    by (cases "e ''ID''") (simp_all add: rename_entry_files_def lookup_def Let_def)
  obtain r wb where mr: "move_all (path_join (path_join (filesdir my) year) ident) copy
                           (getentryfiles e) w = (r, wb)"
    by (cases "move_all (path_join (path_join (filesdir my) year) ident) copy (getentryfiles e) w")
  have un: "rename_entry_files my e copy w =
          (case r of Inl err \<Rightarrow> (Inl err, wb)
                   | Inr efiles \<Rightarrow> (Inr (e(''file'' \<mapsto> join '';'' efiles)), wb))"
    using y d two mr by (simp add: rename_entry_files_def lookup_def Let_def split: sum.splits)
  then obtain efiles where
    m: "move_all (path_join (path_join (filesdir my) year) ident) copy (getentryfiles e) w
              = (Inr efiles, wa)"
    and ea: "ea = e(''file'' \<mapsto> join '';'' efiles)"
    using assms(2) mr by (cases r) auto
  let ?newdir = "path_join (path_join (filesdir my) year) ident"
  from move_all_efiles[OF m] obtain pairs where
    p: "mapM unpack2 (getentryfiles e) = Inr pairs"
       "efiles = map (\<lambda>(src, ftype). src @ '':'' @ ftype) pairs" by blast
  have enc: "(\<lambda>(src, ftype). src @ '':'' @ ftype) = (\<lambda>p::string \<times> string. fst p @ '':'' @ snd p)"
    by (rule ext) (simp add: case_prod_beta)
  have items: "getentryfiles e = map (\<lambda>p. [fst p, snd p]) pairs" by (rule items_of_pairs[OF p(1)])
  then have ne: "pairs \<noteq> []" using assms(1) by auto
  have rt: "getentryfiles ea = getentryfiles e"
    using getentryfiles_rewrite[OF p(1) ne] ea p(2) by simp
  have ea2: "ea = e(''file'' \<mapsto> join '';'' (map (\<lambda>p. fst p @ '':'' @ snd p) pairs))"
    using ea p(2) enc by simp
  have phys: "\<forall>p \<in> set pairs.
                     fs_files (fs w) (fst p) \<noteq> None
                   \<and> fs_files (fs wa) (path_join ?newdir (basename (fst p))) = fs_files (fs w) (fst p)
                   \<and> (\<not> copy \<longrightarrow> fs_files (fs wa) (fst p) = None)"
    if h: "\<not> DRYRUN w
               \<and> (\<forall>p \<in> set pairs. path_join ?newdir (basename (fst p)) \<notin> fs_dirs (fs wa))
               \<and> distinct (map (\<lambda>p. path_join ?newdir (basename (fst p))) pairs)
               \<and> (\<forall>p \<in> set pairs. \<forall>q \<in> set pairs. fst p \<noteq> path_join ?newdir (basename (fst q)))"
  proof -
    have a: "\<forall>item \<in> set (getentryfiles e). path_join ?newdir (basename (hd item)) \<notin> fs_dirs (fs wa)"
      using h items by simp
    have b: "distinct (map (\<lambda>item. path_join ?newdir (basename (hd item))) (getentryfiles e))"
      using h items by (simp add: comp_def)
    have c: "\<forall>a \<in> set (getentryfiles e). \<forall>b \<in> set (getentryfiles e).
               hd a \<noteq> path_join ?newdir (basename (hd b))"
      using h items by simp
    from move_all_places[OF m _ a b c] h show ?thesis using items by simp
  qed
  show ?thesis
    using p(1) y d ea2 rt phys by blast
qed

theorem rename_several_files_witness:
  "2 \<le> length (getentryfiles ex_smith2)
   \<and> (\<exists>wa. rename_entry_files ex_lib ex_smith2 False ex_tmp_world
              = (Inr (ex_smith2(''file'' \<mapsto> ''/tmp/x.pdf:pdf;/tmp/s.zip:zip'')), wa)
           \<and> getentryfiles (ex_smith2(''file'' \<mapsto> ''/tmp/x.pdf:pdf;/tmp/s.zip:zip''))
               = getentryfiles ex_smith2
           \<and> fs_files (fs wa) ''/lib/2020/smith2020/x.pdf'' = Some ''%PDF''
           \<and> fs_files (fs wa) ''/lib/2020/smith2020/s.zip'' = Some ''PK''
           \<and> fs_files (fs wa) ''/tmp/x.pdf'' = None
           \<and> fs_files (fs wa) ''/tmp/s.zip'' = None)"
proof -
  have l: "2 \<le> length (getentryfiles ex_smith2)" by (simp add: ex_smith2_files)
  from ex_rename_several obtain wa where
    r: "rename_entry_files ex_lib ex_smith2 False ex_tmp_world
              = (Inr (ex_smith2(''file'' \<mapsto> ''/tmp/x.pdf:pdf;/tmp/s.zip:zip'')), wa)"
    and f: "fs_files (fs wa) ''/lib/2020/smith2020/x.pdf'' = Some ''%PDF''"
       "fs_files (fs wa) ''/lib/2020/smith2020/s.zip'' = Some ''PK''"
       "fs_files (fs wa) ''/tmp/x.pdf'' = None"
       "fs_files (fs wa) ''/tmp/s.zip'' = None"
    by blast
  from rename_several_files[OF l r]
  have "getentryfiles (ex_smith2(''file'' \<mapsto> ''/tmp/x.pdf:pdf;/tmp/s.zip:zip''))
               = getentryfiles ex_smith2" by blast
  with l r f show ?thesis by blast
qed

subsection \<open>The command \<^verbatim>\<open>add\<close> and the bibliography file\<close>


















end
